theory Spec2Isabelle
  imports Main "HOL-Library.Sublist"
begin

section \<open>The document tree\<close>

text \<open>
  The package works on the node tree of \<^verbatim>\<open>golang.org/x/net/html\<close>. A node is a
  struct linked to its neighbours by pointers; the code compares nodes by pointer and
  mutates them in place. The model keeps this: a pointer is an address (\<open>nat\<close>), the
  nil pointer is \<open>None\<close>, and the heap maps every address to a node. \<open>fresh\<close> is
  the next address that \<^verbatim>\<open>&html.Node{...}\<close> hands out. The fields \<^verbatim>\<open>DataAtom\<close> and
  \<^verbatim>\<open>Namespace\<close> of a node and \<^verbatim>\<open>Namespace\<close> of an attribute are never read by
  the package and are left out.
\<close>

datatype NodeType = ErrorNode | TextNode | DocumentNode | ElementNode | CommentNode | DoctypeNode

record Attribute =
  Key :: string
  Val :: string

record Node =
  Parent :: "nat option"
  FirstChild :: "nat option"
  LastChild :: "nat option"
  PrevSibling :: "nat option"
  NextSibling :: "nat option"
  Type :: NodeType
  Data :: string
  Attr :: "Attribute list"

record heap =
  cells :: "nat \<Rightarrow> Node"
  fresh :: nat

text \<open>
  A Go panic and an ordinary \<^verbatim>\<open>error\<close> value are both results of the model.
  \<open>IndexOutOfRange i n\<close> is the runtime panic "index out of range [i] with length n".
\<close>

datatype error =
    IndexOutOfRange nat nat
  | NilDereference
  | HtmlPanic string
  | Failure string

definition upd :: "nat \<Rightarrow> (Node \<Rightarrow> Node) \<Rightarrow> heap \<Rightarrow> heap" where
  "upd n f h = h\<lparr>cells := (cells h)(n := f (cells h n))\<rparr>"

definition alloc :: "Node \<Rightarrow> heap \<Rightarrow> nat \<times> heap" where
  "alloc nd h = (fresh h, h\<lparr>cells := (cells h)(fresh h := nd), fresh := Suc (fresh h)\<rparr>)"

definition detached :: "heap \<Rightarrow> nat \<Rightarrow> bool" where
  "detached h c =
     (Parent (cells h c) = None \<and> PrevSibling (cells h c) = None \<and> NextSibling (cells h c) = None)"

text \<open>
  \<^verbatim>\<open>Node.AppendChild\<close>, \<^verbatim>\<open>Node.InsertBefore\<close> and \<^verbatim>\<open>Node.RemoveChild\<close> of
  the html package, statement by statement. Each assignment is one heap update, so that
  aliased pointers behave as they do in Go. \<^verbatim>\<open>InsertBefore\<close> is called on
  \<^verbatim>\<open>element.Parent\<close>, which may be nil: the receiver is a pointer that may be
  \<open>None\<close>, and the first field access through it panics.
\<close>

definition AppendChild :: "nat \<Rightarrow> nat \<Rightarrow> heap \<Rightarrow> error + heap" where
  "AppendChild n c h =
     (if \<not> detached h c
      then Inl (HtmlPanic ''html: AppendChild called for an attached child Node'')
      else
        let last = LastChild (cells h n);
            h1 = (case last of
                    Some l \<Rightarrow> upd l (\<lambda>x. x\<lparr>NextSibling := Some c\<rparr>) h
                  | None \<Rightarrow> upd n (\<lambda>x. x\<lparr>FirstChild := Some c\<rparr>) h);
            h2 = upd n (\<lambda>x. x\<lparr>LastChild := Some c\<rparr>) h1;
            h3 = upd c (\<lambda>x. x\<lparr>Parent := Some n\<rparr>) h2
        in Inr (upd c (\<lambda>x. x\<lparr>PrevSibling := last\<rparr>) h3))"

definition InsertBefore :: "nat option \<Rightarrow> nat \<Rightarrow> nat option \<Rightarrow> heap \<Rightarrow> error + heap" where
  "InsertBefore n newChild oldChild h =
     (if \<not> detached h newChild
      then Inl (HtmlPanic ''html: InsertBefore called for an attached child Node'')
      else
        case (case oldChild of
                Some old \<Rightarrow> Inr (PrevSibling (cells h old), Some old)
              | None \<Rightarrow> (case n of
                           None \<Rightarrow> Inl NilDereference
                         | Some p \<Rightarrow> Inr (LastChild (cells h p), None))) of
          Inl e \<Rightarrow> Inl e
        | Inr (prev, next) \<Rightarrow>
            (case (case prev of
                     Some pr \<Rightarrow> Inr (upd pr (\<lambda>x. x\<lparr>NextSibling := Some newChild\<rparr>) h)
                   | None \<Rightarrow> (case n of
                                None \<Rightarrow> Inl NilDereference
                              | Some p \<Rightarrow> Inr (upd p (\<lambda>x. x\<lparr>FirstChild := Some newChild\<rparr>) h))) of
               Inl e \<Rightarrow> Inl e
             | Inr h1 \<Rightarrow>
                 (case (case next of
                          Some nx \<Rightarrow> Inr (upd nx (\<lambda>x. x\<lparr>PrevSibling := Some newChild\<rparr>) h1)
                        | None \<Rightarrow> (case n of
                                     None \<Rightarrow> Inl NilDereference
                                   | Some p \<Rightarrow> Inr (upd p (\<lambda>x. x\<lparr>LastChild := Some newChild\<rparr>) h1))) of
                    Inl e \<Rightarrow> Inl e
                  | Inr h2 \<Rightarrow>
                      Inr (upd newChild
                             (\<lambda>x. x\<lparr>Parent := n, PrevSibling := prev, NextSibling := next\<rparr>) h2))))"

definition RemoveChild :: "nat \<Rightarrow> nat \<Rightarrow> heap \<Rightarrow> error + heap" where
  "RemoveChild n c h =
     (if Parent (cells h c) = Some n
      then
        let h1 = (if FirstChild (cells h n) = Some c
                  then upd n (\<lambda>x. x\<lparr>FirstChild := NextSibling (cells h c)\<rparr>) h else h);
            h2 = (case NextSibling (cells h1 c) of
                    Some nx \<Rightarrow> upd nx (\<lambda>x. x\<lparr>PrevSibling := PrevSibling (cells h1 c)\<rparr>) h1
                  | None \<Rightarrow> h1);
            h3 = (if LastChild (cells h2 n) = Some c
                  then upd n (\<lambda>x. x\<lparr>LastChild := PrevSibling (cells h2 c)\<rparr>) h2 else h2);
            h4 = (case PrevSibling (cells h3 c) of
                    Some pr \<Rightarrow> upd pr (\<lambda>x. x\<lparr>NextSibling := NextSibling (cells h3 c)\<rparr>) h3
                  | None \<Rightarrow> h3)
        in Inr (upd c (\<lambda>x. x\<lparr>Parent := None, PrevSibling := None, NextSibling := None\<rparr>) h4)
      else Inl (HtmlPanic ''html: RemoveChild called for a non-child Node''))"

section \<open>Package attr: attribute helpers\<close>

text \<open>
  \<^verbatim>\<open>Attributes.Attribute\<close> returns \<^verbatim>\<open>&attrs[i]\<close> for the first attribute with the
  key, or nil: the model returns the index into the slice's array. It is called
  \<open>Attribute_at\<close> here, \<open>Attribute\<close> being the record.
\<close>

primrec Attribute_at :: "string \<Rightarrow> Attribute list \<Rightarrow> nat option" where
  "Attribute_at name [] = None"
| "Attribute_at name (a # as) =
     (if Key a = name then Some 0 else map_option Suc (Attribute_at name as))"

definition Get :: "string \<Rightarrow> Attribute list \<Rightarrow> string" where
  "Get name attrs = (case Attribute_at name attrs of Some i \<Rightarrow> Val (attrs ! i) | None \<Rightarrow> [])"

definition Has :: "string \<Rightarrow> Attribute list \<Rightarrow> bool" where
  "Has name attrs = (case Attribute_at name attrs of Some i \<Rightarrow> True | None \<Rightarrow> False)"

text \<open>
  \<^verbatim>\<open>Attributes.Remove\<close> has a value receiver: \<^verbatim>\<open>attrs\<close> is a copy of the caller's
  slice header over the same array. \<^verbatim>\<open>for i := range attrs\<close> fixes the number of
  rounds \<open>n\<close> at the start, while the body indexes the variable \<^verbatim>\<open>attrs\<close>, which
  \<^verbatim>\<open>append(attrs[:i], attrs[i+1:]...)\<close> shortens (length \<open>len\<close>) after moving the
  elements behind \<open>i\<close> one place down inside the shared array \<open>arr\<close>. The caller's
  slice keeps its length, so what the caller sees afterwards is the whole array.
\<close>

function Remove_loop ::
  "string \<Rightarrow> nat \<Rightarrow> nat \<Rightarrow> Attribute list \<Rightarrow> nat \<Rightarrow> error + Attribute list" where
  "Remove_loop name n i arr len =
     (if n \<le> i then Inr arr
      else if len \<le> i then Inl (IndexOutOfRange i len)
      else if Key (arr ! i) = name
        then Remove_loop name n (Suc i)
               (take i arr @ drop (Suc i) (take len arr) @ drop (len - 1) arr) (len - 1)
        else Remove_loop name n (Suc i) arr len)"
  by pat_completeness auto
termination
  by (relation "measure (\<lambda>(name, n, i, arr, len). n - i)") auto

definition Remove :: "string \<Rightarrow> Attribute list \<Rightarrow> error + Attribute list" where
  "Remove name attrs = Remove_loop name (length attrs) 0 attrs (length attrs)"

section \<open>Forms, incidents and the processor\<close>

text \<open>
  \<^verbatim>\<open>url.Values\<close> is a Go map from names to string slices; the maps \<^verbatim>\<open>labels\<close> and
  \<^verbatim>\<open>options\<close> of a form are keyed by node pointer. Reading a missing key of a Go
  map gives the nil slice, which \<open>slice_of\<close> expresses.
\<close>

record Incident =
  Names :: "string list"
  Errors :: "string list"

record LabelableElement =
  Element :: nat
  Labels :: "nat list"

record Form =
  ID :: string
  Values :: "string \<rightharpoonup> string list"
  Incidents :: "Incident list"
  inputs :: "nat list"
  labels :: "nat \<rightharpoonup> nat list"
  options :: "nat \<rightharpoonup> nat list"

record formContext =
  Form :: "nat option"
  Label :: "nat option"
  Select :: "nat option"

definition slice_of :: "'a list option \<Rightarrow> 'a list" where
  "slice_of v = (case v of None \<Rightarrow> [] | Some xs \<Rightarrow> xs)"

text \<open>
  \<^verbatim>\<open>IncidentInserter\<close> is an interface with the one method \<^verbatim>\<open>Insert\<close>, which
  works on the shared tree and may fail; an implementation may also loop forever, which
  is the result \<open>None\<close>. \<^verbatim>\<open>processor\<close> embeds \<^verbatim>\<open>*FormPopulationFilter\<close>: the
  record extends it. Its field \<^verbatim>\<open>labels\<close> is called \<open>plabels\<close> here, since
  \<open>labels\<close> is the field of \<open>Form\<close>.

  \<^verbatim>\<open>p.forms\<close> is a \<^verbatim>\<open>map[string]*Form\<close>: it maps an identifier to a pointer, and
  two identifiers may hold the same pointer. \<open>forms\<close> is the map to addresses and
  \<open>form_cells\<close> gives the form at an address; \<open>form_at p formId\<close> is the form
  that \<^verbatim>\<open>p.forms[formId]\<close> points to, and \<open>set_form\<close> writes through a pointer.
\<close>

type_synonym inserter = "LabelableElement list \<Rightarrow> string list \<Rightarrow> heap \<Rightarrow> (error + heap) option"

record FormPopulationFilter =
  IncidentInsertion :: "inserter option"
  IncludeHiddenInputs :: bool
  IncludePasswordInputs :: bool

definition New :: FormPopulationFilter where
  "New = \<lparr>IncidentInsertion = None, IncludeHiddenInputs = True, IncludePasswordInputs = False\<rparr>"

record processor = FormPopulationFilter +
  document :: "nat option"
  plabels :: "nat list"
  forms :: "string \<rightharpoonup> nat"
  form_cells :: "nat \<Rightarrow> Form"

definition form_at :: "processor \<Rightarrow> string \<Rightarrow> Form option" where
  "form_at p formId = (case forms p formId of None \<Rightarrow> None | Some a \<Rightarrow> Some (form_cells p a))"

definition set_form :: "nat \<Rightarrow> Form \<Rightarrow> processor \<Rightarrow> processor" where
  "set_form a form p = p\<lparr>form_cells := (form_cells p)(a := form)\<rparr>"

section \<open>Value population\<close>

definition first_param :: "string list \<Rightarrow> error + string" where
  "first_param params = (case params of [] \<Rightarrow> Inl (IndexOutOfRange 0 0) | x # xs \<Rightarrow> Inr x)"

text \<open>
  The body of the loop over the options of a select: \<^verbatim>\<open>Remove("selected")\<close>, then
  \<^verbatim>\<open>Get("value")\<close> on the same slice, then one \<^verbatim>\<open>append\<close> for every supplied value
  equal to it.
\<close>

definition populate_option :: "string list \<Rightarrow> nat \<Rightarrow> heap \<Rightarrow> error + heap" where
  "populate_option params opt h =
     (case Remove ''selected'' (Attr (cells h opt)) of
        Inl e \<Rightarrow> Inl e
      | Inr arr \<Rightarrow>
          let h1 = upd opt (\<lambda>x. x\<lparr>Attr := arr\<rparr>) h;
              v = Get ''value'' arr
          in Inr (fold (\<lambda>param hh.
                     if v = param
                     then upd opt (\<lambda>x. x\<lparr>Attr := Attr x @ [\<lparr>Key = ''selected'', Val = ''selected''\<rparr>]\<rparr>) hh
                     else hh) params h1))"

primrec populate_options :: "string list \<Rightarrow> nat list \<Rightarrow> heap \<Rightarrow> error + heap" where
  "populate_options params [] h = Inr h"
| "populate_options params (opt # opts) h =
     (case populate_option params opt h of
        Inl e \<Rightarrow> Inl e
      | Inr h1 \<Rightarrow> populate_options params opts h1)"

text \<open>
  \<^verbatim>\<open>for c := input.FirstChild; c != nil; c = c.NextSibling { input.RemoveChild(c) }\<close>:
  the step \<^verbatim>\<open>c = c.NextSibling\<close> reads the node after \<^verbatim>\<open>RemoveChild\<close> has cleared
  its links.
\<close>

function remove_children :: "nat \<Rightarrow> nat option \<Rightarrow> heap \<Rightarrow> error + heap" where
  "remove_children input c h =
     (case c of
        None \<Rightarrow> Inr h
      | Some ch \<Rightarrow>
          (case RemoveChild input ch h of
             Inl e \<Rightarrow> Inl e
           | Inr h1 \<Rightarrow> remove_children input (NextSibling (cells h1 ch)) h1))"
  by pat_completeness auto
termination
  by (relation "measure (\<lambda>(input, c, h). case c of None \<Rightarrow> 0 | Some ch \<Rightarrow> Suc 0)")
     (auto simp: RemoveChild_def upd_def Let_def split: if_splits)

text \<open>
  The body of the loop of \<^verbatim>\<open>processor.populate\<close> for one input of the form. In the
  radio and checkbox case \<^verbatim>\<open>value\<close> is a pointer into the attribute array taken
  before \<^verbatim>\<open>Remove("checked")\<close> runs, and \<^verbatim>\<open>value.Val\<close> is read after it;
  \<^verbatim>\<open>params[0]\<close> is only evaluated when \<^verbatim>\<open>value\<close> is not nil.
\<close>

definition populate_input :: "processor \<Rightarrow> Form \<Rightarrow> nat \<Rightarrow> heap \<Rightarrow> error + heap" where
  "populate_input p form input h =
     (let attributes = Attr (cells h input);
          name = Get ''name'' attributes
      in case Values form name of
           None \<Rightarrow> Inr h
         | Some params \<Rightarrow>
             if Data (cells h input) = ''select'' then
               (case options form input of
                  None \<Rightarrow> Inr h
                | Some opts \<Rightarrow> populate_options params opts h)
             else if Data (cells h input) = ''textarea'' then
               (case remove_children input (FirstChild (cells h input)) h of
                  Inl e \<Rightarrow> Inl e
                | Inr h1 \<Rightarrow>
                    (case first_param params of
                       Inl e \<Rightarrow> Inl e
                     | Inr v \<Rightarrow>
                         (case alloc \<lparr>Parent = None, FirstChild = None, LastChild = None,
                                       PrevSibling = None, NextSibling = None,
                                       Type = TextNode, Data = v, Attr = []\<rparr> h1 of
                            (c, h2) \<Rightarrow> AppendChild input c h2)))
             else
               let typ = Get ''type'' attributes in
               if typ = ''radio'' \<or> typ = ''checkbox'' then
                 (let ptr = Attribute_at ''value'' attributes in
                  case Remove ''checked'' attributes of
                    Inl e \<Rightarrow> Inl e
                  | Inr arr \<Rightarrow>
                      let h1 = upd input (\<lambda>x. x\<lparr>Attr := arr\<rparr>) h in
                      (case (case ptr of
                               None \<Rightarrow> Inr True
                             | Some i \<Rightarrow> (case first_param params of
                                            Inl e \<Rightarrow> Inl e
                                          | Inr v \<Rightarrow> Inr (Val (arr ! i) = v))) of
                         Inl e \<Rightarrow> Inl e
                       | Inr b \<Rightarrow>
                           if b
                           then Inr (upd input
                                  (\<lambda>x. x\<lparr>Attr := Attr x @ [\<lparr>Key = ''checked'', Val = ''checked''\<rparr>]\<rparr>) h1)
                           else Inr h1))
               else if typ = ''file'' \<or> typ = ''image'' then Inr h
               else if typ = ''password'' \<and> \<not> IncludePasswordInputs p then Inr h
               else if typ = ''hidden'' \<and> \<not> IncludeHiddenInputs p then Inr h
               else
                 (case Remove ''value'' attributes of
                    Inl e \<Rightarrow> Inl e
                  | Inr arr \<Rightarrow>
                      let h1 = upd input (\<lambda>x. x\<lparr>Attr := arr\<rparr>) h in
                      (case first_param params of
                         Inl e \<Rightarrow> Inl e
                       | Inr v \<Rightarrow>
                           Inr (upd input (\<lambda>x. x\<lparr>Attr := Attr x @ [\<lparr>Key = ''value'', Val = v\<rparr>]\<rparr>) h1))))"

primrec populate_inputs :: "processor \<Rightarrow> Form \<Rightarrow> nat list \<Rightarrow> heap \<Rightarrow> error + heap" where
  "populate_inputs p form [] h = Inr h"
| "populate_inputs p form (input # rest) h =
     (case populate_input p form input h of
        Inl e \<Rightarrow> Inl e
      | Inr h1 \<Rightarrow> populate_inputs p form rest h1)"

text \<open>
  \<^verbatim>\<open>p.forms[formId]\<close> is a pointer to a form; for an identifier that is not a key it
  is nil and \<^verbatim>\<open>.inputs\<close> panics.
\<close>

definition populate :: "processor \<Rightarrow> string \<Rightarrow> heap \<Rightarrow> error + heap" where
  "populate p formId h =
     (case form_at p formId of
        None \<Rightarrow> Inl NilDereference
      | Some form \<Rightarrow> populate_inputs p form (inputs form) h)"

section \<open>Scope resolution: the traversal\<close>

text \<open>
  Lines 246 to 252 of \<^verbatim>\<open>traverse\<close>: the node is appended to the inputs of the form
  at the address \<open>a\<close> that \<^verbatim>\<open>p.forms[formId]\<close> holds, and linked to the enclosing
  label, if any.
\<close>

definition add_input ::
  "nat \<Rightarrow> nat \<Rightarrow> formContext \<Rightarrow> processor \<Rightarrow> processor \<times> formContext" where
  "add_input n a context p =
     (let form = form_cells p a;
          form1 = form\<lparr>inputs := inputs form @ [n]\<rparr>;
          form2 = (case Label context of
                     Some l \<Rightarrow> form1\<lparr>labels := (labels form1)(n \<mapsto> slice_of (labels form1 n) @ [l])\<rparr>
                   | None \<Rightarrow> form1)
      in (set_form a form2 p, context))"

text \<open>
  The body of \<^verbatim>\<open>traverse\<close> for one node, without the deferred loop over the
  children, in the three blocks of the source. \<open>enter\<close> is the switch at the top
  (lines 168 to 175), which sets the form and the label of the context. \<open>form_id\<close>
  is the form identifier of the node (lines 194 to 201): the value of its \<^verbatim>\<open>form\<close>
  attribute, and for a missing or empty one the \<^verbatim>\<open>id\<close> of the enclosing form.
  \<open>record_node\<close> is what happens once \<^verbatim>\<open>p.forms[formId]\<close> is found, at the
  address \<open>a\<close> (lines 209 to 252). Each returns the context as the deferred closure
  sees it: the closure captures the variable \<^verbatim>\<open>context\<close>, so the children are visited with every assignment the
  body made to it, \<^verbatim>\<open>context.Select = n\<close> included.
\<close>

definition enter :: "heap \<Rightarrow> nat \<Rightarrow> formContext \<Rightarrow> formContext" where
  "enter h n context =
     (if Type (cells h n) = ElementNode
      then (if Data (cells h n) = ''form'' then context\<lparr>Form := Some n\<rparr>
            else if Data (cells h n) = ''label'' then context\<lparr>Label := Some n\<rparr>
            else context)
      else context)"

definition form_id :: "heap \<Rightarrow> nat \<Rightarrow> formContext \<Rightarrow> string" where
  "form_id h n context =
     (let attributes = Attr (cells h n);
          formId = (case Attribute_at ''form'' attributes of
                      Some i \<Rightarrow> Val (attributes ! i)
                    | None \<Rightarrow> [])
      in if formId = []
         then (case Form context of
                 Some f \<Rightarrow> Get ''id'' (Attr (cells h f))
               | None \<Rightarrow> formId)
         else formId)"

definition record_node ::
  "heap \<Rightarrow> nat \<Rightarrow> nat \<Rightarrow> formContext \<Rightarrow> processor \<Rightarrow> processor \<times> formContext" where
  "record_node h n a context p =
     (let nd = cells h n; attributes = Attr nd in
      if Data nd = ''label'' \<and> Has ''for'' attributes
      then (p\<lparr>plabels := plabels p @ [n]\<rparr>, context)
      else if Select context \<noteq> None \<and> Data nd = ''option''
      then (set_form a
              ((form_cells p a)\<lparr>options := (options (form_cells p a))(the (Select context) \<mapsto>
                  slice_of (options (form_cells p a) (the (Select context))) @ [n])\<rparr>) p, context)
      else if Get ''name'' attributes = [] then (p, context)
      else if Data nd = ''input'' \<or> Data nd = ''textarea'' \<or>
              Data nd = ''progress'' \<or> Data nd = ''meter''
      then add_input n a context p
      else if Data nd = ''button''
      then (if Get ''type'' attributes = ''submit''
            then add_input n a context p else (p, context))
      else if Data nd = ''select''
      then add_input n a (context\<lparr>Select := Some n\<rparr>) p
      else (p, context))"

definition visit :: "heap \<Rightarrow> nat \<Rightarrow> formContext \<Rightarrow> processor \<Rightarrow> processor \<times> formContext" where
  "visit h n context0 p =
     (let context = enter h n context0 in
      if Type (cells h n) = ElementNode then
        (if Form context = None \<and> Attribute_at ''form'' (Attr (cells h n)) = None
         then (p, context)
         else
           (case forms p (form_id h n context) of
              None \<Rightarrow> (p, context)
            | Some a \<Rightarrow> record_node h n a context p))
      else (p, context))"

text \<open>
  \<^verbatim>\<open>traverse\<close> visits the node and then, in the deferred loop
  \<^verbatim>\<open>for c := n.FirstChild; c != nil; c = c.NextSibling { p.traverse(c, context) }\<close>,
  its children. \<open>traverse_children h c context p\<close> is that loop from the child pointer
  \<open>c\<close> on, with the call of \<^verbatim>\<open>traverse\<close> on \<open>c\<close> written out. On a heap whose
  links are cyclic the walk does not return: the result is \<open>None\<close>.
\<close>

partial_function (option) traverse_children ::
  "heap \<Rightarrow> nat option \<Rightarrow> formContext \<Rightarrow> processor \<Rightarrow> processor option" where
  "traverse_children h c context p =
     (case c of
        None \<Rightarrow> Some p
      | Some m \<Rightarrow>
          (case visit h m context p of
             (p1, context1) \<Rightarrow>
               Option.bind (traverse_children h (FirstChild (cells h m)) context1 p1)
                 (\<lambda>p2. traverse_children h (NextSibling (cells h m)) context p2)))"

definition traverse :: "heap \<Rightarrow> nat \<Rightarrow> formContext \<Rightarrow> processor \<Rightarrow> processor option" where
  "traverse h n context p =
     (case visit h n context p of
        (p1, context1) \<Rightarrow> traverse_children h (FirstChild (cells h n)) context1 p1)"

section \<open>Labels that name their element\<close>

text \<open>
  The loop of \<^verbatim>\<open>Execute\<close> over \<^verbatim>\<open>p.labels\<close> for one form (lines 376 to 383); the
  right-hand side of the assignment reads \<^verbatim>\<open>options[input]\<close>.
\<close>

definition match_label :: "heap \<Rightarrow> nat \<Rightarrow> Form \<Rightarrow> Form" where
  "match_label h label form =
     fold (\<lambda>input f.
             if Get ''for'' (Attr (cells h label)) = Get ''id'' (Attr (cells h input))
             then f\<lparr>labels := (labels f)(input \<mapsto> slice_of (options f input) @ [label])\<rparr>
             else f)
          (inputs form) form"

definition match_labels :: "heap \<Rightarrow> nat list \<Rightarrow> Form \<Rightarrow> Form" where
  "match_labels h ls form = fold (match_label h) ls form"

section \<open>Incident insertion\<close>

text \<open>
  The html parser and serializer and the template engine are outside the package. The
  parser and the serializer are parameters: \<open>Parse\<close> reads the input and gives the
  root of a tree in a heap, \<open>ParseFragment\<close> parses markup (in the context of a
  \<^verbatim>\<open>body\<close> element) into new nodes of the heap, \<open>Render\<close> writes the tree behind
  what the writer already holds. A template is what executing it on the error list
  writes into the buffer.
\<close>

record html_lib =
  Parse :: "string \<Rightarrow> error + (nat \<times> heap)"
  ParseFragment :: "string \<Rightarrow> heap \<Rightarrow> error + (nat list \<times> heap)"
  Render :: "heap \<Rightarrow> nat \<Rightarrow> string \<Rightarrow> error option \<times> string"

record GenericIncidentInserter =
  ErrorClass :: string
  Template :: "string list \<Rightarrow> string"

text \<open>
  The default template is
  \<^verbatim>\<open><ul class="errors">{{ range . }}<li>{{.}}</li>{{end}}</ul>\<close>; \<open>esc\<close> is the
  escaping that \<^verbatim>\<open>html/template\<close> applies to \<^verbatim>\<open>{{.}}\<close> in element content.
\<close>

definition default_template :: "(string \<Rightarrow> string) \<Rightarrow> string list \<Rightarrow> string" where
  "default_template esc errors =
     ''<ul class=\"errors\">'' @ concat (map (\<lambda>e. ''<li>'' @ esc e @ ''</li>'') errors) @ ''</ul>''"

definition DefaultIncidentInserter :: "(string \<Rightarrow> string) \<Rightarrow> GenericIncidentInserter" where
  "DefaultIncidentInserter esc = \<lparr>ErrorClass = ''error'', Template = default_template esc\<rparr>"

definition addErrorClass :: "string \<Rightarrow> nat \<Rightarrow> heap \<Rightarrow> heap" where
  "addErrorClass cls node h =
     (let attrs = Attr (cells h node) in
      case Attribute_at ''class'' attrs of
        Some i \<Rightarrow>
          upd node (\<lambda>x. x\<lparr>Attr := attrs[i := (attrs ! i)\<lparr>Val := Val (attrs ! i) @ '' '' @ cls\<rparr>]\<rparr>) h
      | None \<Rightarrow> upd node (\<lambda>x. x\<lparr>Attr := attrs @ [\<lparr>Key = ''class'', Val = cls\<rparr>]\<rparr>) h)"

definition mark_elements :: "string \<Rightarrow> LabelableElement list \<Rightarrow> heap \<Rightarrow> heap" where
  "mark_elements cls elements h =
     fold (\<lambda>element hh. fold (addErrorClass cls) (Labels element)
                          (addErrorClass cls (Element element) hh)) elements h"

text \<open>
  The inner loop of \<^verbatim>\<open>lca\<close>: does the chain \<open>bp, bp.Parent, ...\<close> reach \<open>ap\<close>?
\<close>

partial_function (option) lca_inner :: "heap \<Rightarrow> nat \<Rightarrow> nat option \<Rightarrow> bool option" where
  "lca_inner h ap bp =
     (case bp of
        None \<Rightarrow> Some False
      | Some b \<Rightarrow> if ap = b then Some True else lca_inner h ap (Parent (cells h b)))"

text \<open>
  The outer loop of \<^verbatim>\<open>lca(a, next)\<close> from the pointer \<open>ap\<close> on. The recursive call
  \<^verbatim>\<open>lca(ap, next[1:])\<close> starts its own outer loop at \<^verbatim>\<open>ap.Parent\<close>.
  \<^verbatim>\<open>next[0]\<close> panics on an empty slice.
\<close>

partial_function (option) lca_loop ::
  "heap \<Rightarrow> nat \<Rightarrow> LabelableElement list \<Rightarrow> nat option \<Rightarrow> (error + nat) option" where
  "lca_loop h a next ap =
     (case next of
        [] \<Rightarrow> Some (Inl (IndexOutOfRange 0 0))
      | e # rest \<Rightarrow>
          (case ap of
             None \<Rightarrow> Some (Inr a)
           | Some q \<Rightarrow>
               Option.bind (lca_inner h q (Parent (cells h (Element e))))
                 (\<lambda>found.
                    if found
                    then (if 1 < length next
                          then lca_loop h q rest (Parent (cells h q))
                          else Some (Inr q))
                    else lca_loop h a next (Parent (cells h q)))))"

definition lca :: "heap \<Rightarrow> nat \<Rightarrow> LabelableElement list \<Rightarrow> (error + nat) option" where
  "lca h a next = lca_loop h a next (Parent (cells h a))"

text \<open>
  \<^verbatim>\<open>GenericIncidentInserter.Insert\<close>. The error of \<^verbatim>\<open>Template.Execute\<close> is dropped
  by the code. \<^verbatim>\<open>errorNode[0]\<close> and \<^verbatim>\<open>elements[0]\<close> panic on empty slices.
\<close>

definition Insert :: "html_lib \<Rightarrow> GenericIncidentInserter \<Rightarrow> inserter" where
  "Insert lib i elements errors h =
     (let buffer = Template i errors in
      case ParseFragment lib buffer h of
        Inl e \<Rightarrow> Some (Inl e)
      | Inr (errorNode, h1) \<Rightarrow>
          let h2 = mark_elements (ErrorClass i) elements h1 in
          if length elements = 1 then
            (case errorNode of
               [] \<Rightarrow> Some (Inl (IndexOutOfRange 0 0))
             | en # ens \<Rightarrow>
                 Some (InsertBefore (Parent (cells h2 (Element (hd elements)))) en
                         (NextSibling (cells h2 (Element (hd elements)))) h2))
          else
            (case elements of
               [] \<Rightarrow> Some (Inl (IndexOutOfRange 0 0))
             | e0 # next \<Rightarrow>
                 (case lca h2 (Element e0) next of
                    None \<Rightarrow> None
                  | Some (Inl e) \<Rightarrow> Some (Inl e)
                  | Some (Inr ancestor) \<Rightarrow>
                      (case errorNode of
                         [] \<Rightarrow> Some (Inl (IndexOutOfRange 0 0))
                       | en # ens \<Rightarrow> Some (AppendChild ancestor en h2)))))"

text \<open>
  \<^verbatim>\<open>processor.insert\<close>: the elements an incident names, in the order of the form's
  inputs (an input once for every name of the incident equal to its own), and the loop
  over the incidents.
\<close>

definition matching :: "heap \<Rightarrow> Form \<Rightarrow> Incident \<Rightarrow> LabelableElement list" where
  "matching h form incident =
     concat (map (\<lambda>input.
               concat (map (\<lambda>name.
                         if Get ''name'' (Attr (cells h input)) = name
                         then [\<lparr>Element = input, Labels = slice_of (labels form input)\<rparr>]
                         else [])
                       (Names incident)))
             (inputs form))"

primrec insert_incidents ::
  "inserter \<Rightarrow> Form \<Rightarrow> Incident list \<Rightarrow> heap \<Rightarrow> (error + heap) option" where
  "insert_incidents ins form [] h = Some (Inr h)"
| "insert_incidents ins form (incident # rest) h =
     (let elements = matching h form incident in
      if 0 < length elements then
        (case ins elements (Errors incident) h of
           None \<Rightarrow> None
         | Some (Inl e) \<Rightarrow> Some (Inl e)
         | Some (Inr h1) \<Rightarrow> insert_incidents ins form rest h1)
      else insert_incidents ins form rest h)"

text \<open>
  Calling \<^verbatim>\<open>Insert\<close> on a nil interface value panics. The method is called
  \<open>insert_form\<close> here, \<open>insert\<close> being a constant of HOL.
\<close>

definition call_inserter :: "inserter option \<Rightarrow> inserter" where
  "call_inserter i = (case i of None \<Rightarrow> (\<lambda>elements errors h. Some (Inl NilDereference)) | Some f \<Rightarrow> f)"

definition insert_form :: "processor \<Rightarrow> string \<Rightarrow> heap \<Rightarrow> (error + heap) option" where
  "insert_form p formId h =
     (case form_at p formId of
        None \<Rightarrow> Some (Inl NilDereference)
      | Some form \<Rightarrow> insert_incidents (call_inserter (IncidentInsertion p)) form (Incidents form) h)"

section \<open>Execute\<close>

text \<open>
  One round of the loop \<^verbatim>\<open>for _, form := range p.forms\<close> of \<^verbatim>\<open>Execute\<close>: labels
  with a \<^verbatim>\<open>for\<close> attribute are matched (\<open>resolve_labels\<close>), values are populated,
  incidents are inserted; an error of the insertion is returned at once.
\<close>

definition resolve_labels :: "processor \<Rightarrow> string \<Rightarrow> heap \<Rightarrow> processor" where
  "resolve_labels p formId h =
     (case forms p formId of
        None \<Rightarrow> p
      | Some a \<Rightarrow> set_form a (match_labels h (plabels p) (form_cells p a)) p)"

definition form_step :: "processor \<Rightarrow> string \<Rightarrow> heap \<Rightarrow> (error + processor \<times> heap) option" where
  "form_step p formId h =
     (case forms p formId of
        None \<Rightarrow> Some (Inl NilDereference)
      | Some a \<Rightarrow>
          let p1 = resolve_labels p formId h in
          (case populate p1 formId h of
             Inl e \<Rightarrow> Some (Inl e)
           | Inr h1 \<Rightarrow>
               (case insert_form p1 formId h1 of
                  None \<Rightarrow> None
                | Some (Inl e) \<Rightarrow> Some (Inl e)
                | Some (Inr h2) \<Rightarrow> Some (Inr (p1, h2)))))"

text \<open>
  Go iterates over a map in an order it does not specify: \<open>keys\<close> is the order of
  one run. A key is visited through the form its pointer leads to, whose \<^verbatim>\<open>ID\<close> the
  body uses.
\<close>

primrec process_forms ::
  "processor \<Rightarrow> string list \<Rightarrow> heap \<Rightarrow> (error + processor \<times> heap) option" where
  "process_forms p [] h = Some (Inr (p, h))"
| "process_forms p (k # keys) h =
     (case form_at p k of
        None \<Rightarrow> process_forms p keys h
      | Some form \<Rightarrow>
          (case form_step p (ID form) h of
             None \<Rightarrow> None
           | Some (Inl e) \<Rightarrow> Some (Inl e)
           | Some (Inr (p1, h1)) \<Rightarrow> process_forms p1 keys h1))"

text \<open>
  \<^verbatim>\<open>Execute\<close> reads \<open>r\<close> and writes to a writer that holds \<open>w\<close> so far. The result
  is the error returned (a panic is reported the same way) and what the writer holds
  afterwards; \<open>None\<close> is a call that does not return.

  The loop \<^verbatim>\<open>for _, form := range forms { ...; p.forms[form.ID] = &form }\<close> has one
  variable \<^verbatim>\<open>form\<close> for all its rounds (the package declares no language version, so
  the loop variable is not per round): every round copies the next form of the slice
  into it, gives it fresh \<^verbatim>\<open>labels\<close> and \<^verbatim>\<open>options\<close>, and stores the same
  pointer under the form's \<^verbatim>\<open>ID\<close>. \<open>make_forms\<close> puts the variable at address 0:
  afterwards every identifier of the slice points to it, and it holds the last form.
  For a slice of one form this is that form under its identifier. A nil
  \<^verbatim>\<open>IncidentInsertion\<close> is replaced by the default inserter (\<open>chosen_inserter\<close>);
  the assignment goes through the pointer to the caller's filter, and the caller's copy
  is not part of the result here. The parser starts from an empty heap, so \<open>Parse\<close>
  returns the heap together with the root. \<open>no_context\<close> is \<^verbatim>\<open>formContext{}\<close>.
\<close>

record result =
  err :: "error option"
  written :: string

definition zero_form :: Form where
  "zero_form = \<lparr>ID = [], Values = Map.empty, Incidents = [], inputs = [],
                labels = Map.empty, options = Map.empty\<rparr>"

definition make_forms :: "Form list \<Rightarrow> (string \<rightharpoonup> nat) \<times> (nat \<Rightarrow> Form)" where
  "make_forms fs =
     fold (\<lambda>form (m, cs).
             (m(ID form \<mapsto> 0), cs(0 := form\<lparr>labels := Map.empty, options := Map.empty\<rparr>)))
          fs (Map.empty, \<lambda>a. zero_form)"

definition no_context :: formContext where
  "no_context = \<lparr>Form = None, Label = None, Select = None\<rparr>"

definition chosen_inserter :: "html_lib \<Rightarrow> (string \<Rightarrow> string) \<Rightarrow> FormPopulationFilter \<Rightarrow> inserter" where
  "chosen_inserter lib esc fpf =
     (case IncidentInsertion fpf of
        None \<Rightarrow> Insert lib (DefaultIncidentInserter esc)
      | Some i \<Rightarrow> i)"

definition new_processor ::
  "html_lib \<Rightarrow> (string \<Rightarrow> string) \<Rightarrow> FormPopulationFilter \<Rightarrow> nat \<Rightarrow> Form list \<Rightarrow> processor" where
  "new_processor lib esc fpf doc fs =
     \<lparr>IncidentInsertion = Some (chosen_inserter lib esc fpf),
      IncludeHiddenInputs = IncludeHiddenInputs fpf,
      IncludePasswordInputs = IncludePasswordInputs fpf,
      document = Some doc, plabels = [],
      forms = fst (make_forms fs), form_cells = snd (make_forms fs)\<rparr>"

definition Execute ::
  "html_lib \<Rightarrow> (string \<Rightarrow> string) \<Rightarrow> FormPopulationFilter \<Rightarrow> Form list \<Rightarrow> string list \<Rightarrow>
   string \<Rightarrow> string \<Rightarrow> result option" where
  "Execute lib esc fpf fs keys w r =
     (case Parse lib r of
        Inl e \<Rightarrow> Some \<lparr>err = Some e, written = w\<rparr>
      | Inr (doc, h) \<Rightarrow>
          (case traverse h doc no_context (new_processor lib esc fpf doc fs) of
             None \<Rightarrow> None
           | Some p1 \<Rightarrow>
               (case process_forms p1 keys h of
                  None \<Rightarrow> None
                | Some (Inl e) \<Rightarrow> Some \<lparr>err = Some e, written = w\<rparr>
                | Some (Inr (p2, h2)) \<Rightarrow>
                    (case Render lib h2 doc w of
                       (e, w1) \<Rightarrow> Some \<lparr>err = e, written = w1\<rparr>))))"

section \<open>Where a fragment is placed\<close>

text \<open>
  The spec names the placements of a rendered fragment relative to a reference node:
  "immediately after" it, or "as its last child". In terms of the links of the tree:
  \<open>placed_after h ref c\<close> says that \<open>c\<close> is the next sibling of \<open>ref\<close>, under
  the same parent; \<open>placed_last_child h ref c\<close> says that \<open>c\<close> is the last child
  of \<open>ref\<close>. \<open>well_linked h n\<close> is the consistency of the links around a node that
  has a parent: the node after it points back to it, or it is its parent's last child.
\<close>

definition well_linked :: "heap \<Rightarrow> nat \<Rightarrow> bool" where
  "well_linked h n =
     (case Parent (cells h n) of
        None \<Rightarrow> False
      | Some q \<Rightarrow>
          (case NextSibling (cells h n) of
             None \<Rightarrow> LastChild (cells h q) = Some n
           | Some nx \<Rightarrow> PrevSibling (cells h nx) = Some n))"

definition placed_after :: "heap \<Rightarrow> nat \<Rightarrow> nat \<Rightarrow> bool" where
  "placed_after h ref c =
     (NextSibling (cells h ref) = Some c \<and> PrevSibling (cells h c) = Some ref \<and>
      Parent (cells h c) = Parent (cells h ref))"

definition placed_last_child :: "heap \<Rightarrow> nat \<Rightarrow> nat \<Rightarrow> bool" where
  "placed_last_child h ref c = (Parent (cells h c) = Some ref \<and> LastChild (cells h ref) = Some c)"

text \<open>
  The loops of \<^verbatim>\<open>lca\<close> climb \<^verbatim>\<open>Parent\<close> links. In a tree these links have a
  rank: a function on the nodes that is smaller at the parent than at the child (the
  depth of the node, for one). \<open>height\<close> extends it to pointers.
\<close>

definition ranked :: "heap \<Rightarrow> (nat \<Rightarrow> nat) \<Rightarrow> bool" where
  "ranked h f = (\<forall>n q. Parent (cells h n) = Some q \<longrightarrow> f q < f n)"

definition height :: "(nat \<Rightarrow> nat) \<Rightarrow> nat option \<Rightarrow> nat" where
  "height f ptr = (case ptr of None \<Rightarrow> 0 | Some n \<Rightarrow> Suc (f n))"

section \<open>The tree a heap lays out\<close>

text \<open>
  The traversal follows \<^verbatim>\<open>FirstChild\<close> and \<^verbatim>\<open>NextSibling\<close>. \<open>shape h c ts\<close>
  says that the sibling chain that starts at the pointer \<open>c\<close> is the forest \<open>ts\<close>
  of addresses; \<open>preorder\<close> is its document order. \<open>visits\<close> lists the nodes in
  the order \<^verbatim>\<open>traverse\<close> reaches them, each with the context it is called with, and
  \<open>walk\<close> is the processor after these calls.
\<close>

datatype tree = Tree nat "tree list"

fun shape :: "heap \<Rightarrow> nat option \<Rightarrow> tree list \<Rightarrow> bool" where
  "shape h c [] = (c = None)"
| "shape h c (Tree m ts # rest) =
     (c = Some m \<and> shape h (FirstChild (cells h m)) ts \<and> shape h (NextSibling (cells h m)) rest)"

fun preorder :: "tree list \<Rightarrow> nat list" where
  "preorder [] = []"
| "preorder (Tree m ts # rest) = m # preorder ts @ preorder rest"

fun visits :: "heap \<Rightarrow> processor \<Rightarrow> tree list \<Rightarrow> formContext \<Rightarrow> (nat \<times> formContext) list" where
  "visits h p [] context = []"
| "visits h p (Tree m ts # rest) context =
     (m, context) # visits h p ts (snd (visit h m context p)) @ visits h p rest context"

fun walk :: "heap \<Rightarrow> tree list \<Rightarrow> formContext \<Rightarrow> processor \<Rightarrow> processor" where
  "walk h [] context p = p"
| "walk h (Tree m ts # rest) context p =
     walk h rest context (walk h ts (snd (visit h m context p)) (fst (visit h m context p)))"

text \<open>
  The path of the code to line 246, where a node is appended to the inputs of the form
  at address \<open>a\<close>: \<open>reaches_append\<close> reads the context after \<open>enter\<close>,
  \<open>appended\<close> the context the node is visited with and the pointers \<open>m\<close> of
  \<^verbatim>\<open>p.forms\<close>.
\<close>

definition reaches_append :: "heap \<Rightarrow> nat \<Rightarrow> formContext \<Rightarrow> bool" where
  "reaches_append h n context =
     (\<not> (Data (cells h n) = ''label'' \<and> Has ''for'' (Attr (cells h n))) \<and>
      \<not> (Select context \<noteq> None \<and> Data (cells h n) = ''option'') \<and>
      Get ''name'' (Attr (cells h n)) \<noteq> [] \<and>
      (Data (cells h n) = ''input'' \<or> Data (cells h n) = ''textarea'' \<or>
       Data (cells h n) = ''progress'' \<or> Data (cells h n) = ''meter'' \<or>
       (Data (cells h n) = ''button'' \<and> Get ''type'' (Attr (cells h n)) = ''submit'') \<or>
       Data (cells h n) = ''select''))"

definition appended :: "heap \<Rightarrow> (string \<rightharpoonup> nat) \<Rightarrow> nat \<Rightarrow> formContext \<Rightarrow> nat \<Rightarrow> bool" where
  "appended h m n context0 a =
     (Type (cells h n) = ElementNode \<and>
      \<not> (Form (enter h n context0) = None \<and> Attribute_at ''form'' (Attr (cells h n)) = None) \<and>
      m (form_id h n (enter h n context0)) = Some a \<and>
      reaches_append h n (enter h n context0))"

section \<open>The elements of a form, as the document has them\<close>

text \<open>
  Which elements a form's list should hold is said here on the document alone, with
  none of the functions of the traversal. \<open>with_ancestors\<close> lists the nodes of a
  forest in document order, each with its ancestors, the nearest first.
  \<open>attribute_value\<close> is the value of the first attribute of a name.
  \<open>enclosing_form\<close> is the nearest ancestor that is a \<^verbatim>\<open>form\<close> element.

  \<open>owner\<close> is the form identifier an element belongs to: the value of its
  \<^verbatim>\<open>form\<close> attribute if that is not empty, else the \<^verbatim>\<open>id\<close> of the enclosing form
  element (empty if it has none); an element with no \<^verbatim>\<open>form\<close> attribute and no
  enclosing form element belongs to no form. \<open>populatable_element\<close> is an element of
  one of the kinds that take a value (\<^verbatim>\<open>input\<close>, \<^verbatim>\<open>textarea\<close>, \<^verbatim>\<open>select\<close>,
  \<^verbatim>\<open>progress\<close>, \<^verbatim>\<open>meter\<close>, a submit \<^verbatim>\<open>button\<close>) with a non-empty name.
  \<open>listed_with m a\<close> holds of the populatable elements whose form identifier is a
  key of \<open>m\<close> that points to the form at \<open>a\<close>.
\<close>

fun with_ancestors :: "nat list \<Rightarrow> tree list \<Rightarrow> (nat \<times> nat list) list" where
  "with_ancestors anc [] = []"
| "with_ancestors anc (Tree m ts # rest) =
     (m, anc) # with_ancestors (m # anc) ts @ with_ancestors anc rest"

definition attribute_value :: "string \<Rightarrow> Attribute list \<Rightarrow> string option" where
  "attribute_value name as = map_of (map (\<lambda>a. (Key a, Val a)) as) name"

definition enclosing_form :: "heap \<Rightarrow> nat list \<Rightarrow> nat option" where
  "enclosing_form h anc =
     find (\<lambda>a. Type (cells h a) = ElementNode \<and> Data (cells h a) = ''form'') anc"

definition id_of :: "heap \<Rightarrow> nat \<Rightarrow> string" where
  "id_of h f = (case attribute_value ''id'' (Attr (cells h f)) of None \<Rightarrow> [] | Some v \<Rightarrow> v)"

definition owner :: "heap \<Rightarrow> nat \<Rightarrow> nat list \<Rightarrow> string option" where
  "owner h n anc =
     (case attribute_value ''form'' (Attr (cells h n)) of
        Some v \<Rightarrow>
          if v \<noteq> [] then Some v
          else (case enclosing_form h anc of None \<Rightarrow> Some [] | Some f \<Rightarrow> Some (id_of h f))
      | None \<Rightarrow>
          (case enclosing_form h anc of None \<Rightarrow> None | Some f \<Rightarrow> Some (id_of h f)))"

definition populatable_element :: "heap \<Rightarrow> nat \<Rightarrow> bool" where
  "populatable_element h n =
     (Type (cells h n) = ElementNode \<and>
      (case attribute_value ''name'' (Attr (cells h n)) of None \<Rightarrow> False | Some v \<Rightarrow> v \<noteq> []) \<and>
      (Data (cells h n) \<in> {''input'', ''textarea'', ''select'', ''progress'', ''meter''} \<or>
       Data (cells h n) = ''button'' \<and>
       attribute_value ''type'' (Attr (cells h n)) = Some ''submit''))"

definition listed_with :: "heap \<Rightarrow> (string \<rightharpoonup> nat) \<Rightarrow> nat \<Rightarrow> nat \<times> nat list \<Rightarrow> bool" where
  "listed_with h m a = (\<lambda>(n, anc).
     populatable_element h n \<and>
     (case owner h n anc of None \<Rightarrow> False | Some k \<Rightarrow> m k = Some a))"

section \<open>Example documents\<close>

text \<open>
  Heaps are written as the list of their nodes, the address of a node being its place
  in the list. Every document has the nodes that the html parser always builds: the
  document node 0, \<^verbatim>\<open>html\<close> 1, \<^verbatim>\<open>head\<close> 2 and \<^verbatim>\<open>body\<close> 3.
\<close>

definition node ::
  "NodeType \<Rightarrow> string \<Rightarrow> Attribute list \<Rightarrow> nat option \<Rightarrow> nat option \<Rightarrow> nat option \<Rightarrow>
   nat option \<Rightarrow> nat option \<Rightarrow> Node" where
  "node ty d as par fc lc ps ns =
     \<lparr>Parent = par, FirstChild = fc, LastChild = lc, PrevSibling = ps, NextSibling = ns,
      Type = ty, Data = d, Attr = as\<rparr>"

definition attr :: "string \<Rightarrow> string \<Rightarrow> Attribute" where
  "attr k v = \<lparr>Key = k, Val = v\<rparr>"

definition heap_of :: "Node list \<Rightarrow> heap" where
  "heap_of ns =
     \<lparr>cells = (\<lambda>i. if i < length ns then ns ! i
                   else node ErrorNode [] [] None None None None None),
      fresh = length ns\<rparr>"

definition page :: "Node list \<Rightarrow> heap" where
  "page ns = heap_of
     ([node DocumentNode [] [] None (Some 1) (Some 1) None None,
       node ElementNode ''html'' [] (Some 0) (Some 2) (Some 3) None None,
       node ElementNode ''head'' [] (Some 1) None None None (Some 3),
       node ElementNode ''body'' [] (Some 1) (Some 4) (Some 4) (Some 2) None] @ ns)"

text \<open>
  A stand-in for the html package on one document: \<open>Parse\<close> yields the document,
  \<open>ParseFragment\<close> allocates one detached \<^verbatim>\<open>ul\<close> element (\<open>ul_fragment\<close>) or
  fails (\<open>broken_lib\<close>), \<open>Render\<close> writes a fixed text. \<open>run_new\<close> is the
  processor \<^verbatim>\<open>Execute\<close> has after the traversal when the filter is \<^verbatim>\<open>New()\<close>.
\<close>

definition ul_fragment :: "string \<Rightarrow> heap \<Rightarrow> error + (nat list \<times> heap)" where
  "ul_fragment buffer h =
     (case alloc (node ElementNode ''ul'' [attr ''class'' ''errors''] None None None None None) h of
        (n, h1) \<Rightarrow> Inr ([n], h1))"

definition page_lib :: "heap \<Rightarrow> html_lib" where
  "page_lib doc =
     \<lparr>Parse = (\<lambda>r. Inr (0, doc)), ParseFragment = ul_fragment,
      Render = (\<lambda>h n w. (None, w @ ''<!DOCTYPE html>''))\<rparr>"

definition broken_lib :: "heap \<Rightarrow> html_lib" where
  "broken_lib doc = (page_lib doc)\<lparr>ParseFragment := (\<lambda>buffer h. Inl (Failure ''unexpected EOF''))\<rparr>"

definition run_new :: "heap \<Rightarrow> Form list \<Rightarrow> processor option" where
  "run_new doc fs = traverse doc 0 no_context (new_processor (page_lib doc) (\<lambda>s. s) New 0 fs)"

text \<open>
  \<open>doc_form_attribute\<close> is

  \<^verbatim>\<open><input name="out" form="f"><form id="f"><input name="a" form="f">\<close>
  \<^verbatim>\<open><input name="b" form="g"><input name="c"><input></form>\<close>

  in \<^verbatim>\<open>body\<close>: node 4 is outside the form element and names it, node 6 is inside and
  names it, node 7 is inside and names another form, node 8 is inside, node 9 has no
  name. \<open>doc_two_forms\<close> is

  \<^verbatim>\<open><form id="a"><input name="x"></form><form id="b"><input name="y"></form>\<close>,

  with the inputs at 5 and 7.
\<close>

definition doc_form_attribute :: heap where
  "doc_form_attribute = heap_of
     [node DocumentNode [] [] None (Some 1) (Some 1) None None,
      node ElementNode ''html'' [] (Some 0) (Some 2) (Some 3) None None,
      node ElementNode ''head'' [] (Some 1) None None None (Some 3),
      node ElementNode ''body'' [] (Some 1) (Some 4) (Some 5) (Some 2) None,
      node ElementNode ''input'' [attr ''name'' ''out'', attr ''form'' ''f''] (Some 3) None None None (Some 5),
      node ElementNode ''form'' [attr ''id'' ''f''] (Some 3) (Some 6) (Some 9) (Some 4) None,
      node ElementNode ''input'' [attr ''name'' ''a'', attr ''form'' ''f''] (Some 5) None None None (Some 7),
      node ElementNode ''input'' [attr ''name'' ''b'', attr ''form'' ''g''] (Some 5) None None (Some 6) (Some 8),
      node ElementNode ''input'' [attr ''name'' ''c''] (Some 5) None None (Some 7) (Some 9),
      node ElementNode ''input'' [] (Some 5) None None (Some 8) None]"

definition tree_form_attribute :: "tree list" where
  "tree_form_attribute =
     [Tree 1 [Tree 2 [], Tree 3 [Tree 4 [], Tree 5 [Tree 6 [], Tree 7 [], Tree 8 [], Tree 9 []]]]]"

definition doc_two_forms :: heap where
  "doc_two_forms = heap_of
     [node DocumentNode [] [] None (Some 1) (Some 1) None None,
      node ElementNode ''html'' [] (Some 0) (Some 2) (Some 3) None None,
      node ElementNode ''head'' [] (Some 1) None None None (Some 3),
      node ElementNode ''body'' [] (Some 1) (Some 4) (Some 6) (Some 2) None,
      node ElementNode ''form'' [attr ''id'' ''a''] (Some 3) (Some 5) (Some 5) None (Some 6),
      node ElementNode ''input'' [attr ''name'' ''x''] (Some 4) None None None None,
      node ElementNode ''form'' [attr ''id'' ''b''] (Some 3) (Some 7) (Some 7) (Some 4) None,
      node ElementNode ''input'' [attr ''name'' ''y''] (Some 6) None None None None]"

definition tree_two_forms :: "tree list" where
  "tree_two_forms = [Tree 1 [Tree 2 [], Tree 3 [Tree 4 [Tree 5 []], Tree 6 [Tree 7 []]]]]"

definition named_form :: "string \<Rightarrow> Form" where
  "named_form k = \<lparr>ID = k, Values = Map.empty, Incidents = [], inputs = [],
                   labels = Map.empty, options = Map.empty\<rparr>"

definition doc_one_input :: "Attribute list \<Rightarrow> heap" where
  "doc_one_input as = page
     [node ElementNode ''form'' [attr ''action'' ''/''] (Some 3) (Some 5) (Some 5) None None,
      node ElementNode ''input'' as (Some 4) None None None None]"

definition tree_one_input :: "tree list" where
  "tree_one_input = [Tree 1 [Tree 2 [], Tree 3 [Tree 4 [Tree 5 []]]]]"

definition values_form :: "(string \<rightharpoonup> string list) \<Rightarrow> Form" where
  "values_form vs = \<lparr>ID = [], Values = vs, Incidents = [], inputs = [],
                      labels = Map.empty, options = Map.empty\<rparr>"

definition doc_nested_label :: heap where
  "doc_nested_label = page
     [node ElementNode ''form'' [attr ''action'' ''/''] (Some 3) (Some 5) (Some 7) None None,
      node ElementNode ''label'' [] (Some 4) (Some 6) (Some 6) None (Some 7),
      node ElementNode ''input'' [attr ''id'' ''a'', attr ''name'' ''a''] (Some 5) None None None None,
      node ElementNode ''label'' [attr ''for'' ''a''] (Some 4) (Some 8) (Some 8) (Some 5) None,
      node TextNode ''A'' [] (Some 7) None None None None]"

definition tree_nested_label :: "tree list" where
  "tree_nested_label =
     [Tree 1 [Tree 2 [], Tree 3 [Tree 4 [Tree 5 [Tree 6 []], Tree 7 [Tree 8 []]]]]]"

definition doc_three_inputs :: heap where
  "doc_three_inputs = page
     [node ElementNode ''form'' [attr ''action'' ''/''] (Some 3) (Some 5) (Some 5) None None,
      node ElementNode ''div'' [] (Some 4) (Some 6) (Some 8) None None,
      node ElementNode ''input'' [attr ''name'' ''day''] (Some 5) None None None (Some 7),
      node ElementNode ''input'' [attr ''name'' ''month''] (Some 5) None None (Some 6) (Some 8),
      node ElementNode ''input'' [attr ''name'' ''year''] (Some 5) None None (Some 7) None]"

definition with_fragment :: "heap \<Rightarrow> heap" where
  "with_fragment h =
     snd (alloc (node ElementNode ''ul'' [attr ''class'' ''errors''] None None None None None) h)"

definition element :: "nat \<Rightarrow> LabelableElement" where
  "element n = \<lparr>Element = n, Labels = []\<rparr>"

definition doc_error_location :: heap where
  "doc_error_location = page
     [node ElementNode ''form'' [attr ''action'' ''/''] (Some 3) (Some 5) (Some 6) None None,
      node ElementNode ''input'' [attr ''type'' ''text'', attr ''name'' ''foo''] (Some 4) None None None (Some 6),
      node ElementNode ''div'' [] (Some 4) (Some 7) (Some 8) (Some 5) None,
      node ElementNode ''input'' [attr ''type'' ''checkbox'', attr ''name'' ''foo1''] (Some 6) None None None (Some 8),
      node ElementNode ''input'' [attr ''type'' ''checkbox'', attr ''name'' ''foo2''] (Some 6) None None (Some 7) None]"

definition tree_three_inputs :: "tree list" where
  "tree_three_inputs = [Tree 1 [Tree 2 [], Tree 3 [Tree 4 [Tree 5 [Tree 6 [], Tree 7 [], Tree 8 []]]]]]"

definition date_form :: Form where
  "date_form = \<lparr>ID = [], Values = Map.empty,
     Incidents = [\<lparr>Names = [''day'', ''month'', ''year''], Errors = [''Invalid date.'']\<rparr>],
     inputs = [], labels = Map.empty, options = Map.empty\<rparr>"

definition doc_text_input :: heap where
  "doc_text_input = doc_one_input [attr ''type'' ''text'', attr ''name'' ''foo'']"

definition required_form :: "string \<Rightarrow> Form" where
  "required_form name = \<lparr>ID = [], Values = [''foo'' \<mapsto> [''bar'']],
     Incidents = [\<lparr>Names = [name], Errors = [''This field is required.'']\<rparr>],
     inputs = [], labels = Map.empty, options = Map.empty\<rparr>"

section \<open>The traversal on a tree\<close>

lemma traverse_children_walk:
  "shape h c ts \<Longrightarrow> traverse_children h c ctx p = Some (walk h ts ctx p)"
proof (induction h ts ctx p arbitrary: c rule: walk.induct)
  case (1 h ctx p)
  then show ?case by (simp add: traverse_children.simps)
next
  case (2 h m ts rest ctx p)
  then show ?case
    by (subst traverse_children.simps) (simp add: case_prod_beta)
qed

lemma record_node_forms: "forms (fst (record_node h n a ctx p)) = forms p"
  by (simp add: record_node_def add_input_def set_form_def Let_def)

lemma visit_forms: "forms (fst (visit h n ctx p)) = forms p"
  by (simp add: visit_def Let_def record_node_forms split: option.split)

lemma record_node_snd:
  "snd (record_node h n a ctx p) =
     (if reaches_append h n ctx \<and> Data (cells h n) = ''select'' then ctx\<lparr>Select := Some n\<rparr> else ctx)"
  by (simp add: record_node_def add_input_def Let_def reaches_append_def)

lemma record_node_inputs:
  "inputs (form_cells (fst (record_node h n a ctx p)) b) =
     inputs (form_cells p b) @ (if b = a \<and> reaches_append h n ctx then [n] else [])"
  by (auto simp: record_node_def add_input_def set_form_def Let_def reaches_append_def
           split: option.splits)

lemma visit_snd:
  "snd (visit h n ctx p) =
     (if Type (cells h n) = ElementNode \<and>
         \<not> (Form (enter h n ctx) = None \<and> Attribute_at ''form'' (Attr (cells h n)) = None) \<and>
         form_id h n (enter h n ctx) \<in> dom (forms p) \<and>
         reaches_append h n (enter h n ctx) \<and> Data (cells h n) = ''select''
      then (enter h n ctx)\<lparr>Select := Some n\<rparr> else enter h n ctx)"
proof (cases "forms p (form_id h n (enter h n ctx))")
  case None
  then show ?thesis by (simp add: visit_def Let_def domIff)
next
  case (Some a)
  then show ?thesis by (auto simp: visit_def Let_def domIff record_node_snd)
qed

lemma visit_snd_cong:
  "forms p' = forms p \<Longrightarrow> snd (visit h n ctx p') = snd (visit h n ctx p)"
  by (simp only: visit_snd)

lemma visit_inputs:
  "inputs (form_cells (fst (visit h n ctx p)) a) =
     inputs (form_cells p a) @ (if appended h (forms p) n ctx a then [n] else [])"
proof (cases "Type (cells h n) = ElementNode \<and>
      \<not> (Form (enter h n ctx) = None \<and> Attribute_at ''form'' (Attr (cells h n)) = None)")
  case False
  then show ?thesis by (auto simp: visit_def Let_def appended_def)
next
  case True
  show ?thesis
  proof (cases "forms p (form_id h n (enter h n ctx))")
    case None
    then show ?thesis using True by (auto simp: visit_def Let_def appended_def)
  next
    case (Some b)
    show ?thesis using True Some
      by (auto simp: visit_def Let_def appended_def record_node_inputs)
  qed
qed

lemma visits_cong:
  "forms p' = forms p \<Longrightarrow> visits h p' ts ctx = visits h p ts ctx"
proof (induction h p ts ctx rule: visits.induct)
  case (1 h p ctx)
  then show ?case by simp
next
  case (2 h p m ts rest ctx)
  have "snd (visit h m ctx p') = snd (visit h m ctx p)"
    using "2.prems" by (rule visit_snd_cong)
  then show ?case using 2 by simp
qed

lemma walk_forms: "forms (walk h ts ctx p) = forms p"
  by (induction h ts ctx p rule: walk.induct) (simp_all add: visit_forms)

lemma walk_inputs:
  "inputs (form_cells (walk h ts ctx p) a) =
     inputs (form_cells p a) @
     map fst (filter (\<lambda>(n, c). appended h (forms p) n c a) (visits h p ts ctx))"
proof (induction h ts ctx p rule: walk.induct)
  case (1 h ctx p)
  then show ?case by simp
next
  case (2 h m ts rest ctx p)
  let ?p1 = "fst (visit h m ctx p)"
  let ?c1 = "snd (visit h m ctx p)"
  have v1: "visits h ?p1 ts ?c1 = visits h p ts ?c1"
    by (rule visits_cong) (rule visit_forms)
  have v2: "visits h (walk h ts ?c1 ?p1) rest ctx = visits h p rest ctx"
    by (rule visits_cong) (simp add: walk_forms visit_forms)
  show ?case
    by (simp add: "2.IH" visit_inputs v1 v2 walk_forms visit_forms)
qed

lemma visits_preorder: "map fst (visits h p ts ctx) = preorder ts"
  by (induction h p ts ctx rule: visits.induct) simp_all

lemma with_ancestors_preorder: "map fst (with_ancestors anc ts) = preorder ts"
  by (induction anc ts rule: with_ancestors.induct) simp_all

section \<open>The path to the append and the elements of a form\<close>

text \<open>
  \<^verbatim>\<open>Get\<close> and \<^verbatim>\<open>Has\<close> read the first attribute of a name, as
  \<open>attribute_value\<close> does. The form of the context is the nearest enclosing form
  element all along the traversal (\<open>visit_Form\<close>). So the nodes the code appends
  are the populatable elements whose form identifier points to the form
  (\<open>appended_listed\<close>, \<open>visits_listed\<close>).
\<close>

lemma Attribute_at_None: "(Attribute_at name as = None) = (attribute_value name as = None)"
  by (induction as) (simp_all add: attribute_value_def)

lemma Attribute_at_Some:
  "Attribute_at name as = Some i \<Longrightarrow> attribute_value name as = Some (Val (as ! i))"
proof (induction as arbitrary: i)
  case Nil
  then show ?case by simp
next
  case (Cons a as)
  then show ?case by (auto simp: attribute_value_def split: if_splits)
qed

lemma Get_value:
  "Get name as = (case attribute_value name as of None \<Rightarrow> [] | Some v \<Rightarrow> v)"
proof (cases "Attribute_at name as")
  case None
  then show ?thesis using Attribute_at_None [of name as] by (simp add: Get_def)
next
  case (Some i)
  then show ?thesis using Attribute_at_Some [OF Some] by (simp add: Get_def)
qed

lemma form_id_value:
  "form_id h n ctx =
     (case attribute_value ''form'' (Attr (cells h n)) of
        Some v \<Rightarrow> if v \<noteq> [] then v
                  else (case Form ctx of None \<Rightarrow> [] | Some f \<Rightarrow> id_of h f)
      | None \<Rightarrow> (case Form ctx of None \<Rightarrow> [] | Some f \<Rightarrow> id_of h f))"
proof (cases "Attribute_at ''form'' (Attr (cells h n))")
  case None
  then show ?thesis using Attribute_at_None [of "''form''" "Attr (cells h n)"]
    by (simp add: form_id_def Let_def id_of_def Get_value split: option.split)
next
  case (Some i)
  then show ?thesis using Attribute_at_Some [OF Some]
    by (simp add: form_id_def Let_def id_of_def Get_value split: option.split)
qed

lemma reaches_append_element:
  "Type (cells h n) = ElementNode \<Longrightarrow> reaches_append h n ctx = populatable_element h n"
  by (auto simp: reaches_append_def populatable_element_def Get_value split: option.splits)

lemma enter_Form:
  "Form (enter h n ctx) =
     (if Type (cells h n) = ElementNode \<and> Data (cells h n) = ''form'' then Some n else Form ctx)"
  by (simp add: enter_def)

lemma visit_Form: "Form (snd (visit h n ctx p)) = Form (enter h n ctx)"
  by (simp add: visit_snd)

lemma appended_listed:
  assumes "Form ctx = enclosing_form h anc"
  shows "appended h m n ctx a = listed_with h m a (n, anc)"
proof (cases "Type (cells h n) = ElementNode")
  case False
  then show ?thesis by (simp add: appended_def listed_with_def populatable_element_def)
next
  case True
  show ?thesis
  proof (cases "Data (cells h n) = ''form''")
    case form: True
    then have "\<not> populatable_element h n" by (simp add: populatable_element_def)
    then show ?thesis using True
      by (simp add: appended_def listed_with_def reaches_append_element)
  next
    case other: False
    have f: "Form (enter h n ctx) = enclosing_form h anc"
      using other assms by (simp add: enter_Form)
    show ?thesis
      using True
      by (auto simp: appended_def listed_with_def reaches_append_element form_id_value f
            owner_def Attribute_at_None split: option.splits)
  qed
qed

lemma visits_listed:
  "Form ctx = enclosing_form h anc \<Longrightarrow>
   map fst (filter (\<lambda>(n, c). appended h m n c a) (visits h p ts ctx)) =
   map fst (filter (listed_with h m a) (with_ancestors anc ts))"
proof (induction anc ts arbitrary: ctx rule: with_ancestors.induct)
  case (1 anc)
  then show ?case by simp
next
  case (2 anc n ts rest)
  have c: "Form (snd (visit h n ctx p)) = enclosing_form h (n # anc)"
    using "2.prems" by (simp add: visit_Form enter_Form enclosing_form_def)
  have here: "appended h m n ctx a = listed_with h m a (n, anc)"
    using "2.prems" by (rule appended_listed)
  show ?case
    using "2.IH"(1) [OF c] "2.IH"(2) [OF "2.prems"] here by simp
qed

text \<open>
  C9. On a heap that lays out a tree (no node is reached twice), the traversal that
  \<^verbatim>\<open>Execute\<close> starts returns. If the key \<open>k\<close> points to a form that starts with
  no inputs, then afterwards it points to the same form, whose inputs are, in document
  order and each once, exactly the populatable elements whose form identifier points
  to that form: those of \<open>k\<close> among them. The form identifier of an element is read
  off the document (\<open>owner\<close>): the \<^verbatim>\<open>form\<close> attribute decides, also against the
  enclosing form element. Where several keys point to one form, as all keys of the
  processor of \<^verbatim>\<open>Execute\<close> do (\<open>two_forms_share_inputs\<close>), its list holds the
  elements of all of them.
\<close>

theorem traverse_inputs_document_order:
  assumes "shape h (FirstChild (cells h root)) ts"
      and "distinct (root # preorder ts)"
      and "forms p k = Some a"
      and "inputs (form_cells p a) = []"
  shows "\<exists>p'. traverse h root no_context p = Some p' \<and> forms p' = forms p \<and>
           inputs (form_cells p' a) =
             map fst (filter (listed_with h (forms p) a) (with_ancestors [] [Tree root ts])) \<and>
           {n. \<exists>anc. (n, anc) \<in> set (with_ancestors [] [Tree root ts]) \<and>
                  populatable_element h n \<and> owner h n anc = Some k}
             \<subseteq> set (inputs (form_cells p' a)) \<and>
           subseq (inputs (form_cells p' a)) (root # preorder ts) \<and>
           distinct (inputs (form_cells p' a))"
proof -
  define ws where "ws = with_ancestors [] [Tree root ts]"
  define p' where "p' = walk h [Tree root ts] no_context p"
  define l where "l = listed_with h (forms p) a"
  have t: "traverse h root no_context p = Some p'"
    using traverse_children_walk [OF assms(1)]
    by (simp add: traverse_def case_prod_beta p'_def)
  have e: "Form no_context = enclosing_form h []"
    by (simp add: no_context_def enclosing_form_def)
  have i: "inputs (form_cells p' a) = map fst (filter l ws)"
    unfolding p'_def ws_def l_def
    by (simp only: walk_inputs visits_listed [OF e] assms(4) append_Nil)
  have f: "forms p' = forms p"
    unfolding p'_def by (rule walk_forms)
  have pre: "map fst ws = root # preorder ts"
    unfolding ws_def using with_ancestors_preorder [of "[]" "[Tree root ts]"] by simp
  have "subseq (map fst (filter l ws)) (map fst ws)"
    by (rule subseq_map) (rule subseq_filter_left)
  then have sub: "subseq (inputs (form_cells p' a)) (root # preorder ts)"
    by (simp only: i pre)
  have "distinct (map fst ws)"
    unfolding pre using assms(2) .
  then have "distinct (map fst (filter l ws))"
    by (rule distinct_map_filter)
  then have dis: "distinct (inputs (form_cells p' a))"
    by (simp only: i)
  have own: "{n. \<exists>anc. (n, anc) \<in> set ws \<and> populatable_element h n \<and> owner h n anc = Some k}
               \<subseteq> set (inputs (form_cells p' a))"
  proof
    fix n
    assume "n \<in> {n. \<exists>anc. (n, anc) \<in> set ws \<and> populatable_element h n \<and> owner h n anc = Some k}"
    then obtain anc where n: "(n, anc) \<in> set ws" "populatable_element h n" "owner h n anc = Some k"
      by blast
    have "l (n, anc)"
      using n(2,3) assms(3) by (simp add: l_def listed_with_def)
    then have "(n, anc) \<in> set (filter l ws)"
      using n(1) by simp
    then have "fst (n, anc) \<in> fst ` set (filter l ws)"
      by (rule imageI)
    then show "n \<in> set (inputs (form_cells p' a))"
      by (simp only: i set_map fst_conv)
  qed
  show ?thesis
    using t f i own sub dis unfolding ws_def l_def by blast
qed

theorem traverse_inputs_document_order_witness:
  "shape doc_form_attribute (FirstChild (cells doc_form_attribute 0)) tree_form_attribute \<and>
   distinct (0 # preorder tree_form_attribute) \<and>
   forms (new_processor (page_lib doc_form_attribute) (\<lambda>s. s) New 0 [named_form ''f'']) ''f'' = Some 0 \<and>
   inputs (form_cells
     (new_processor (page_lib doc_form_attribute) (\<lambda>s. s) New 0 [named_form ''f'']) 0) = [] \<and>
   owner doc_form_attribute 4 [3, 1, 0] = Some ''f'' \<and>
   owner doc_form_attribute 6 [5, 3, 1, 0] = Some ''f'' \<and>
   owner doc_form_attribute 7 [5, 3, 1, 0] = Some ''g'' \<and>
   owner doc_form_attribute 8 [5, 3, 1, 0] = Some ''f'' \<and>
   \<not> populatable_element doc_form_attribute 9 \<and>
   (\<exists>p. run_new doc_form_attribute [named_form ''f''] = Some p \<and>
      forms p ''f'' = Some 0 \<and> inputs (form_cells p 0) = [4, 6, 8])"
proof -
  define p where "p = new_processor (page_lib doc_form_attribute) (\<lambda>s. s) New 0 [named_form ''f'']"
  have c: "cells doc_form_attribute 0 = node DocumentNode [] [] None (Some 1) (Some 1) None None"
    "cells doc_form_attribute (Suc 0) = node ElementNode ''html'' [] (Some 0) (Some 2) (Some 3) None None"
    "cells doc_form_attribute 2 = node ElementNode ''head'' [] (Some 1) None None None (Some 3)"
    "cells doc_form_attribute 3 = node ElementNode ''body'' [] (Some 1) (Some 4) (Some 5) (Some 2) None"
    "cells doc_form_attribute 4 =
       node ElementNode ''input'' [attr ''name'' ''out'', attr ''form'' ''f''] (Some 3) None None None (Some 5)"
    "cells doc_form_attribute 5 =
       node ElementNode ''form'' [attr ''id'' ''f''] (Some 3) (Some 6) (Some 9) (Some 4) None"
    "cells doc_form_attribute 6 =
       node ElementNode ''input'' [attr ''name'' ''a'', attr ''form'' ''f''] (Some 5) None None None (Some 7)"
    "cells doc_form_attribute 7 =
       node ElementNode ''input'' [attr ''name'' ''b'', attr ''form'' ''g''] (Some 5) None None (Some 6) (Some 8)"
    "cells doc_form_attribute 8 =
       node ElementNode ''input'' [attr ''name'' ''c''] (Some 5) None None (Some 7) (Some 9)"
    "cells doc_form_attribute 9 = node ElementNode ''input'' [] (Some 5) None None (Some 8) None"
    by (simp_all add: doc_form_attribute_def heap_of_def)
  have s: "shape doc_form_attribute (FirstChild (cells doc_form_attribute 0)) tree_form_attribute"
    by (simp add: c tree_form_attribute_def node_def)
  have d: "distinct (0 # preorder tree_form_attribute)"
    by (simp add: tree_form_attribute_def)
  have m: "forms p = [''f'' \<mapsto> 0]"
    by (simp add: p_def new_processor_def make_forms_def named_form_def)
  have f: "forms p ''f'' = Some 0"
    by (simp add: m)
  have i: "inputs (form_cells p 0) = []"
    by (simp add: p_def new_processor_def make_forms_def named_form_def)
  have o: "owner doc_form_attribute 4 [3, 1, 0] = Some ''f''"
    "owner doc_form_attribute 6 [5, 3, 1, 0] = Some ''f''"
    "owner doc_form_attribute 7 [5, 3, 1, 0] = Some ''g''"
    "owner doc_form_attribute 8 [5, 3, 1, 0] = Some ''f''"
    "\<not> populatable_element doc_form_attribute 9"
    by (simp_all add: owner_def populatable_element_def attribute_value_def enclosing_form_def
          id_of_def c node_def attr_def)
  have v: "map fst (filter (listed_with doc_form_attribute (forms p) 0)
             (with_ancestors [] [Tree 0 tree_form_attribute])) = [4, 6, 8]"
    by (simp add: tree_form_attribute_def m listed_with_def owner_def populatable_element_def
          attribute_value_def enclosing_form_def id_of_def c node_def attr_def)
  from traverse_inputs_document_order [OF s d f i] obtain p' where
    p': "traverse doc_form_attribute 0 no_context p = Some p'" "forms p' = forms p"
        "inputs (form_cells p' 0) =
           map fst (filter (listed_with doc_form_attribute (forms p) 0)
             (with_ancestors [] [Tree 0 tree_form_attribute]))"
    by blast
  have r: "run_new doc_form_attribute [named_form ''f''] = Some p'"
    using p'(1) by (simp only: run_new_def p_def)
  have "forms p' ''f'' = Some 0"
    by (simp only: p'(2) f)
  moreover have "inputs (form_cells p' 0) = [4, 6, 8]"
    by (simp only: p'(3) v)
  ultimately show ?thesis
    using r s d f i o unfolding p_def by blast
qed

section \<open>What Remove does to the caller's slice\<close>

text \<open>
  Once \<^verbatim>\<open>Remove\<close> has shortened its own slice, a later round of its loop indexes
  past the end (\<open>Remove_loop_shortened\<close>). So \<^verbatim>\<open>Remove\<close> returns only when the
  key is absent or found in the last place alone, and then the array that the caller
  sees is as before (\<open>Remove_unchanged\<close>); a key found before the last place ends in
  a panic (\<open>Remove_panics\<close>). For the rule of \<^verbatim>\<open>populate\<close> that sets the
  \<^verbatim>\<open>value\<close> attribute this means: whenever it completes, the attributes are the
  old ones with the new \<^verbatim>\<open>value\<close> behind them (\<open>generic_rule_appends\<close>).
\<close>

lemma Remove_loop_shortened:
  "len < n \<Longrightarrow> i < n \<Longrightarrow> \<exists>e. Remove_loop name n i arr len = Inl e"
proof (induction name n i arr len rule: Remove_loop.induct)
  case (1 name n i arr len)
  show ?case
  proof (cases "len \<le> i")
    case True
    then show ?thesis using "1.prems" by (subst Remove_loop.simps) simp
  next
    case False
    then have s: "Suc i < n" using "1.prems" by simp
    show ?thesis
    proof (cases "Key (arr ! i) = name")
      case True
      have "\<exists>e. Remove_loop name n (Suc i)
                 (take i arr @ drop (Suc i) (take len arr) @ drop (len - 1) arr) (len - 1) = Inl e"
        using "1.IH"(1) "1.prems" False True s by simp
      then show ?thesis using "1.prems" False True by (subst Remove_loop.simps) simp
    next
      case neq: False
      have "\<exists>e. Remove_loop name n (Suc i) arr len = Inl e"
        using "1.IH"(2) "1.prems" False neq s by simp
      then show ?thesis using "1.prems" False neq by (subst Remove_loop.simps) simp
    qed
  qed
qed

lemma Remove_loop_unchanged:
  "length arr = n \<Longrightarrow> Remove_loop name n i arr n = Inr arr' \<Longrightarrow> arr' = arr"
proof (induction "n - i" arbitrary: i)
  case 0
  then show ?case by (subst (asm) Remove_loop.simps) simp
next
  case (Suc d)
  then have i: "i < n" by simp
  show ?case
  proof (cases "Key (arr ! i) = name")
    case True
    let ?arr2 = "take i arr @ drop (Suc i) (take n arr) @ drop (n - 1) arr"
    have r: "Remove_loop name n (Suc i) ?arr2 (n - 1) = Inr arr'"
      using Suc.prems(2) i True by (subst (asm) Remove_loop.simps) simp
    show ?thesis
    proof (cases "Suc i < n")
      case True
      then show ?thesis
        using Remove_loop_shortened [of "n - 1" n "Suc i" name ?arr2] r i by auto
    next
      case False
      then have e: "Suc i = n" using i by simp
      then have "arr' = ?arr2"
        using r by (subst (asm) Remove_loop.simps) simp
      moreover have "?arr2 = arr"
        using e Suc.prems(1) by (metis Suc_eq_plus1 add_diff_cancel_right' append_Nil append_take_drop_id drop_all order_refl length_take min.idem)
      ultimately show ?thesis by simp
    qed
  next
    case False
    have "Remove_loop name n (Suc i) arr n = Inr arr'"
      using Suc.prems(2) i False by (subst (asm) Remove_loop.simps) simp
    moreover have "d = n - Suc i" using Suc.hyps(2) by simp
    ultimately show ?thesis using Suc.hyps(1) Suc.prems(1) by blast
  qed
qed

lemma Remove_unchanged: "Remove name attrs = Inr arr \<Longrightarrow> arr = attrs"
  unfolding Remove_def by (rule Remove_loop_unchanged [OF refl])


lemma Remove_loop_panics:
  "j \<le> i \<Longrightarrow> Suc i < n \<Longrightarrow> Key (arr ! i) = name \<Longrightarrow>
   \<exists>e. Remove_loop name n j arr n = Inl e"
proof (induction "i - j" arbitrary: j)
  case 0
  then have "j = i" by simp
  then have "Remove_loop name n j arr n =
             Remove_loop name n (Suc i) (take i arr @ drop (Suc i) (take n arr) @ drop (n - 1) arr) (n - 1)"
    using "0.prems" by (subst Remove_loop.simps) simp
  then show ?case
    using Remove_loop_shortened [of "n - 1" n "Suc i" name] "0.prems" by simp
next
  case (Suc d)
  then have j: "j < i" by simp
  show ?case
  proof (cases "Key (arr ! j) = name")
    case True
    have "Remove_loop name n j arr n =
          Remove_loop name n (Suc j) (take j arr @ drop (Suc j) (take n arr) @ drop (n - 1) arr) (n - 1)"
      using Suc.prems j True by (subst Remove_loop.simps) simp
    then show ?thesis
      using Remove_loop_shortened [of "n - 1" n "Suc j" name] Suc.prems j by simp
  next
    case False
    have "Remove_loop name n j arr n = Remove_loop name n (Suc j) arr n"
      using Suc.prems j False by (subst Remove_loop.simps) simp
    moreover have "\<exists>e. Remove_loop name n (Suc j) arr n = Inl e"
      using Suc.hyps(1) [of "Suc j"] Suc.hyps(2) Suc.prems j by simp
    ultimately show ?thesis by simp
  qed
qed

lemma Remove_panics:
  "Suc i < length attrs \<Longrightarrow> Key (attrs ! i) = name \<Longrightarrow> \<exists>e. Remove name attrs = Inl e"
  unfolding Remove_def by (rule Remove_loop_panics) simp_all

lemma generic_rule_appends:
  assumes "Values form (Get ''name'' (Attr (cells h input))) = Some params"
      and "Data (cells h input) = ''input''"
      and "Get ''type'' (Attr (cells h input)) \<notin>
             {''radio'', ''checkbox'', ''file'', ''image'', ''password'', ''hidden''}"
      and "populate_input p form input h = Inr h1"
  shows "\<exists>v vs. params = v # vs \<and>
           Attr (cells h1 input) = Attr (cells h input) @ [\<lparr>Key = ''value'', Val = v\<rparr>]"
proof -
  from assms obtain arr v where
    r: "Remove ''value'' (Attr (cells h input)) = Inr arr" and
    f: "first_param params = Inr v" and
    h1: "h1 = upd input (\<lambda>x. x\<lparr>Attr := Attr x @ [\<lparr>Key = ''value'', Val = v\<rparr>]\<rparr>)
                (upd input (\<lambda>x. x\<lparr>Attr := arr\<rparr>) h)"
    by (auto simp: populate_input_def Let_def split: sum.splits)
  have "arr = Attr (cells h input)"
    using r by (rule Remove_unchanged)
  moreover obtain vs where "params = v # vs"
    using f by (auto simp: first_param_def split: list.splits)
  ultimately show ?thesis
    using h1 by (simp add: upd_def)
qed

text \<open>
  So a pass that applies this rule never leaves the heap as it found it: the attribute
  list of the input grows by one.
\<close>

lemma generic_rule_never_fixed:
  assumes "Values form (Get ''name'' (Attr (cells h input))) = Some params"
      and "Data (cells h input) = ''input''"
      and "Get ''type'' (Attr (cells h input)) \<notin>
             {''radio'', ''checkbox'', ''file'', ''image'', ''password'', ''hidden''}"
      and "populate_input p form input h = Inr h1"
  shows "length (Attr (cells h1 input)) = Suc (length (Attr (cells h input)))"
  using generic_rule_appends [OF assms] by auto

section \<open>Value population on concrete documents\<close>

lemma traverse_tree:
  "shape h (FirstChild (cells h root)) ts \<Longrightarrow>
   traverse h root ctx p = Some (walk h [Tree root ts] ctx p)"
  using traverse_children_walk [of h "FirstChild (cells h root)" ts]
  by (simp add: traverse_def case_prod_beta)

lemma cells_one_input:
  "cells (doc_one_input as) 5 = node ElementNode ''input'' as (Some 4) None None None None"
  by (simp add: doc_one_input_def page_def heap_of_def)

lemma record_node_filter:
  "FormPopulationFilter.truncate (fst (record_node h n a ctx p)) = FormPopulationFilter.truncate p"
  by (simp add: record_node_def add_input_def set_form_def Let_def FormPopulationFilter.truncate_def)

lemma visit_filter:
  "FormPopulationFilter.truncate (fst (visit h n ctx p)) = FormPopulationFilter.truncate p"
  by (simp add: visit_def Let_def record_node_filter split: option.split)

lemma walk_filter:
  "FormPopulationFilter.truncate (walk h ts ctx p) = FormPopulationFilter.truncate p"
  by (induction h ts ctx p rule: walk.induct) (simp_all add: visit_filter)

lemma filter_fields:
  assumes "FormPopulationFilter.truncate p = FormPopulationFilter.truncate q"
  shows "IncidentInsertion p = IncidentInsertion q"
    and "IncludeHiddenInputs p = IncludeHiddenInputs q"
    and "IncludePasswordInputs p = IncludePasswordInputs q"
  using assms by (simp_all add: FormPopulationFilter.truncate_def)

lemma run_new_tree:
  assumes "shape doc (FirstChild (cells doc 0)) ts"
  shows "run_new doc fs =
           Some (walk doc [Tree 0 ts] no_context (new_processor (page_lib doc) (\<lambda>s. s) New 0 fs))"
    and "\<And>p. run_new doc fs = Some p \<Longrightarrow>
           IncidentInsertion p = Some (Insert (page_lib doc) (DefaultIncidentInserter (\<lambda>s. s))) \<and>
           IncludeHiddenInputs p = True \<and> IncludePasswordInputs p = False"
proof -
  show r: "run_new doc fs =
           Some (walk doc [Tree 0 ts] no_context (new_processor (page_lib doc) (\<lambda>s. s) New 0 fs))"
    unfolding run_new_def by (rule traverse_tree [OF assms])
  fix p assume a: "run_new doc fs = Some p"
  have "p = walk doc [Tree 0 ts] no_context (new_processor (page_lib doc) (\<lambda>s. s) New 0 fs)"
    using a unfolding r by (simp only: option.inject)
  then have "FormPopulationFilter.truncate p =
             FormPopulationFilter.truncate (new_processor (page_lib doc) (\<lambda>s. s) New 0 fs)"
    by (simp only: walk_filter)
  from filter_fields [OF this]
  show "IncidentInsertion p = Some (Insert (page_lib doc) (DefaultIncidentInserter (\<lambda>s. s))) \<and>
        IncludeHiddenInputs p = True \<and> IncludePasswordInputs p = False"
    by (simp add: new_processor_def chosen_inserter_def New_def)
qed

lemma shape_one_input:
  "shape (doc_one_input as) (FirstChild (cells (doc_one_input as) 0)) tree_one_input"
  by (simp add: doc_one_input_def page_def heap_of_def node_def tree_one_input_def)

lemma run_new_one_input:
  assumes "Get ''name'' as \<noteq> []" and "Attribute_at ''form'' as = None"
  shows "\<exists>p. run_new (doc_one_input as) [values_form vs] = Some p \<and>
           form_at p [] = Some ((values_form vs)\<lparr>inputs := [5]\<rparr>) \<and>
           IncludePasswordInputs p = False \<and> IncludeHiddenInputs p = True"
proof -
  define p where
    "p = walk (doc_one_input as) [Tree 0 tree_one_input] no_context
           (new_processor (page_lib (doc_one_input as)) (\<lambda>s. s) New 0 [values_form vs])"
  have t: "run_new (doc_one_input as) [values_form vs] = Some p"
    unfolding p_def by (rule run_new_tree(1) [OF shape_one_input])
  have "form_at p [] = Some ((values_form vs)\<lparr>inputs := [5]\<rparr>)"
    unfolding p_def using assms
    by (simp add: doc_one_input_def page_def heap_of_def node_def attr_def tree_one_input_def
          no_context_def new_processor_def make_forms_def values_form_def form_at_def set_form_def
          visit_def enter_def form_id_def record_node_def add_input_def Get_def Has_def Let_def)
  then show ?thesis using t run_new_tree(2) [OF shape_one_input t] by blast
qed

text \<open>
  The processor that \<^verbatim>\<open>Execute\<close> builds from two forms has one form object: both
  identifiers point to it, it is the second form, and after the traversal of
  \<open>doc_two_forms\<close> its inputs are those of both form elements.
\<close>

lemma two_forms_share_inputs:
  "\<exists>p. run_new doc_two_forms [named_form ''a'', named_form ''b''] = Some p \<and>
     forms p ''a'' = Some 0 \<and> forms p ''b'' = Some 0 \<and>
     ID (form_cells p 0) = ''b'' \<and> inputs (form_cells p 0) = [5, 7]"
proof -
  define p where
    "p = walk doc_two_forms [Tree 0 tree_two_forms] no_context
           (new_processor (page_lib doc_two_forms) (\<lambda>s. s) New 0 [named_form ''a'', named_form ''b''])"
  have s: "shape doc_two_forms (FirstChild (cells doc_two_forms 0)) tree_two_forms"
    by (simp add: doc_two_forms_def heap_of_def node_def tree_two_forms_def)
  have t: "run_new doc_two_forms [named_form ''a'', named_form ''b''] = Some p"
    unfolding p_def by (rule run_new_tree(1) [OF s])
  have "forms p ''a'' = Some 0 \<and> forms p ''b'' = Some 0 \<and>
        ID (form_cells p 0) = ''b'' \<and> inputs (form_cells p 0) = [5, 7]"
    unfolding p_def
    by (simp add: doc_two_forms_def heap_of_def node_def attr_def tree_two_forms_def
          no_context_def new_processor_def make_forms_def named_form_def set_form_def
          visit_def enter_def form_id_def record_node_def add_input_def Get_def Has_def Let_def)
  then show ?thesis using t by blast
qed

text \<open>
  C1 says that for an input of an ordinary type with a supplied value, population removes
  an existing \<^verbatim>\<open>value\<close> attribute and sets the attribute to the first supplied
  value. The code departs from it on the input
  \<^verbatim>\<open><input type="text" name="foo" value="old">\<close> with the values \<^verbatim>\<open>{foo: ["bar"]}\<close>:
  \<^verbatim>\<open>Remove("value")\<close> leaves the slice of the caller as it was, so the old attribute
  stays and the new one is appended behind it; \<^verbatim>\<open>Get("value")\<close> still answers
  \<^verbatim>\<open>old\<close>.
\<close>

theorem populate_keeps_existing_value:
  "\<exists>p h1.
     run_new (doc_one_input [attr ''type'' ''text'', attr ''name'' ''foo'', attr ''value'' ''old''])
       [values_form [''foo'' \<mapsto> [''bar'']]] = Some p \<and>
     populate p [] (doc_one_input [attr ''type'' ''text'', attr ''name'' ''foo'', attr ''value'' ''old''])
       = Inr h1 \<and>
     Attr (cells h1 5) =
       [attr ''type'' ''text'', attr ''name'' ''foo'', attr ''value'' ''old'', attr ''value'' ''bar''] \<and>
     Get ''value'' (Attr (cells h1 5)) = ''old''"
proof -
  let ?as = "[attr ''type'' ''text'', attr ''name'' ''foo'', attr ''value'' ''old'']"
  let ?h1 = "upd 5 (\<lambda>x. x\<lparr>Attr := ?as @ [attr ''value'' ''bar'']\<rparr>) (doc_one_input ?as)"
  obtain p where
    t: "run_new (doc_one_input ?as) [values_form [''foo'' \<mapsto> [''bar'']]] = Some p"
    and w: "form_at p [] = Some ((values_form [''foo'' \<mapsto> [''bar'']])\<lparr>inputs := [5]\<rparr>)"
    using run_new_one_input [of ?as "[''foo'' \<mapsto> [''bar'']]"]
    by (auto simp: attr_def Get_def)
  have "populate p [] (doc_one_input ?as) = Inr ?h1"
    by (simp add: w cells_one_input populate_def populate_input_def values_form_def node_def attr_def
          Get_def Let_def Remove_def upd_def first_param_def)
  then show ?thesis
    using t by (simp add: upd_def attr_def Get_def)
qed

text \<open>
  C2 says that a second population pass with the same values leaves the populated
  document as it is. The code departs from it on the input
  \<^verbatim>\<open><input type="text" name="foo">\<close> with the values \<^verbatim>\<open>{foo: ["bar"]}\<close>: the first
  pass appends
  \<^verbatim>\<open>value="bar"\<close>, the second pass does not remove it and appends it again.
\<close>

theorem populate_twice_differs:
  "\<exists>p h1 h2.
     run_new (doc_one_input [attr ''type'' ''text'', attr ''name'' ''foo''])
       [values_form [''foo'' \<mapsto> [''bar'']]] = Some p \<and>
     populate p [] (doc_one_input [attr ''type'' ''text'', attr ''name'' ''foo'']) = Inr h1 \<and>
     populate p [] h1 = Inr h2 \<and>
     Attr (cells h1 5) = [attr ''type'' ''text'', attr ''name'' ''foo'', attr ''value'' ''bar''] \<and>
     Attr (cells h2 5) =
       [attr ''type'' ''text'', attr ''name'' ''foo'', attr ''value'' ''bar'', attr ''value'' ''bar'']"
proof -
  let ?as = "[attr ''type'' ''text'', attr ''name'' ''foo'']"
  let ?h1 = "upd 5 (\<lambda>x. x\<lparr>Attr := ?as @ [attr ''value'' ''bar'']\<rparr>) (doc_one_input ?as)"
  let ?h2 = "upd 5 (\<lambda>x. x\<lparr>Attr := ?as @ [attr ''value'' ''bar'', attr ''value'' ''bar'']\<rparr>) ?h1"
  obtain p where
    t: "run_new (doc_one_input ?as) [values_form [''foo'' \<mapsto> [''bar'']]] = Some p"
    and w: "form_at p [] = Some ((values_form [''foo'' \<mapsto> [''bar'']])\<lparr>inputs := [5]\<rparr>)"
    using run_new_one_input [of ?as "[''foo'' \<mapsto> [''bar'']]"]
    by (auto simp: attr_def Get_def)
  have 1: "populate p [] (doc_one_input ?as) = Inr ?h1"
    by (simp add: w cells_one_input populate_def populate_input_def values_form_def node_def attr_def
          Get_def Let_def Remove_def upd_def first_param_def)
  have 2: "populate p [] ?h1 = Inr ?h2"
    by (simp add: w cells_one_input populate_def populate_input_def values_form_def node_def attr_def
          Get_def Let_def Remove_def upd_def first_param_def)
  show ?thesis
    using t 1 2 by (simp add: upd_def)
qed

text \<open>
  C10 says that the population pass never indexes out of bounds when every value list is
  non-empty. The code departs from it: with the values \<^verbatim>\<open>{foo: ["bar"]}\<close> and the
  input \<^verbatim>\<open><input value="old" type="text" name="foo">\<close>, \<^verbatim>\<open>Remove("value")\<close> shortens its
  slice to two attributes in the first round and indexes it with 2 in the third, so the
  population pass ends in the panic "index out of range [2] with length 2".
\<close>

theorem populate_index_out_of_range:
  "\<exists>p. run_new (doc_one_input [attr ''value'' ''old'', attr ''type'' ''text'', attr ''name'' ''foo''])
          [values_form [''foo'' \<mapsto> [''bar'']]] = Some p \<and>
     populate p [] (doc_one_input [attr ''value'' ''old'', attr ''type'' ''text'', attr ''name'' ''foo''])
       = Inl (IndexOutOfRange 2 2)"
proof -
  let ?as = "[attr ''value'' ''old'', attr ''type'' ''text'', attr ''name'' ''foo'']"
  obtain p where
    t: "run_new (doc_one_input ?as) [values_form [''foo'' \<mapsto> [''bar'']]] = Some p"
    and w: "form_at p [] = Some ((values_form [''foo'' \<mapsto> [''bar'']])\<lparr>inputs := [5]\<rparr>)"
    using run_new_one_input [of ?as "[''foo'' \<mapsto> [''bar'']]"]
    by (auto simp: attr_def Get_def)
  have "populate p [] (doc_one_input ?as) = Inl (IndexOutOfRange 2 2)"
    by (simp add: w cells_one_input populate_def populate_input_def values_form_def node_def attr_def
          Get_def Let_def Remove_def upd_def first_param_def)
  then show ?thesis using t by simp
qed

text \<open>
  What does hold of the reads of \<^verbatim>\<open>params[0]\<close>: on a non-empty list the read
  succeeds.
\<close>

lemma first_param_in_bounds: "params \<noteq> [] \<Longrightarrow> first_param params = Inr (hd params)"
  by (cases params) (simp_all add: first_param_def)

text \<open>
  C6. With the password switch as \<^verbatim>\<open>New()\<close> sets it, the loop body of
  \<^verbatim>\<open>populate\<close> returns the heap as it was for an \<^verbatim>\<open>input\<close> element whose
  \<^verbatim>\<open>type\<close> is \<^verbatim>\<open>password\<close>, whatever the values say: no attribute is added or
  changed, on this element or elsewhere.
\<close>

theorem password_untouched_by_default:
  assumes "IncludePasswordInputs p = IncludePasswordInputs New"
      and "Data (cells h input) = ''input''"
      and "Get ''type'' (Attr (cells h input)) = ''password''"
  shows "populate_input p form input h = Inr h"
  using assms by (simp add: populate_input_def New_def Let_def split: option.split)

theorem password_untouched_by_default_witness:
  "\<exists>p. run_new (doc_one_input [attr ''type'' ''password'', attr ''name'' ''pw''])
          [values_form [''pw'' \<mapsto> [''secret'']]] = Some p \<and>
     IncludePasswordInputs p = IncludePasswordInputs New \<and>
     inputs (the (form_at p [])) = [5] \<and>
     Values (the (form_at p [])) ''pw'' = Some [''secret''] \<and>
     populate_input p (the (form_at p [])) 5
       (doc_one_input [attr ''type'' ''password'', attr ''name'' ''pw'']) =
       Inr (doc_one_input [attr ''type'' ''password'', attr ''name'' ''pw''])"
proof -
  let ?as = "[attr ''type'' ''password'', attr ''name'' ''pw'']"
  obtain p where
    t: "run_new (doc_one_input ?as) [values_form [''pw'' \<mapsto> [''secret'']]] = Some p"
    and w: "form_at p [] = Some ((values_form [''pw'' \<mapsto> [''secret'']])\<lparr>inputs := [5]\<rparr>)"
    and c: "IncludePasswordInputs p = False"
    using run_new_one_input [of ?as "[''pw'' \<mapsto> [''secret'']]"]
    by (auto simp: attr_def Get_def)
  have n: "IncludePasswordInputs p = IncludePasswordInputs New"
    using c by (simp add: New_def)
  have d: "Data (cells (doc_one_input ?as) 5) = ''input''"
    by (simp add: cells_one_input node_def)
  have g: "Get ''type'' (Attr (cells (doc_one_input ?as) 5)) = ''password''"
    by (simp add: cells_one_input node_def attr_def Get_def)
  from password_untouched_by_default [OF n d g, of "the (form_at p [])"]
  show ?thesis using t n w by (simp add: values_form_def)
qed

section \<open>Labels on a concrete document\<close>

text \<open>
  C3 says that a label whose \<^verbatim>\<open>for\<close> attribute names an input is appended to the
  labels the input already has from nesting. The code departs from it. In
  \<^verbatim>\<open><form action="/"><label><input id="a" name="a"></label><label for="a">A</label></form>\<close>
  the input 6 is inside the label 5, and the label 7 names it. After the traversal the
  labels of the input are \<open>[5]\<close>; the round of \<^verbatim>\<open>Execute\<close> for the form assigns
  \<^verbatim>\<open>append(options[input], label)\<close>, and the labels of the input are \<open>[7]\<close>: the
  nested label is gone.
\<close>

theorem label_by_id_replaces_nested_label:
  "\<exists>p p1 h1.
     run_new doc_nested_label [values_form Map.empty] = Some p \<and>
     inputs (the (form_at p [])) = [6] \<and>
     labels (the (form_at p [])) 6 = Some [5] \<and>
     plabels p = [7] \<and>
     form_step p [] doc_nested_label = Some (Inr (p1, h1)) \<and>
     labels (the (form_at p1 [])) 6 = Some [7]"
proof -
  define p where
    "p = walk doc_nested_label [Tree 0 tree_nested_label] no_context
           (new_processor (page_lib doc_nested_label) (\<lambda>s. s) New 0 [values_form Map.empty])"
  have s: "shape doc_nested_label (FirstChild (cells doc_nested_label 0)) tree_nested_label"
    by (simp add: doc_nested_label_def page_def heap_of_def node_def tree_nested_label_def)
  have t: "run_new doc_nested_label [values_form Map.empty] = Some p"
    unfolding p_def by (rule run_new_tree(1) [OF s])
  have w: "forms p [] = Some 0"
          "form_cells p 0 = (values_form Map.empty)\<lparr>inputs := [6], labels := [6 \<mapsto> [5]]\<rparr>"
          "plabels p = [7]"
    unfolding p_def
    by (simp_all add: doc_nested_label_def page_def heap_of_def node_def attr_def tree_nested_label_def
          no_context_def new_processor_def make_forms_def values_form_def slice_of_def set_form_def
          visit_def enter_def form_id_def record_node_def add_input_def Get_def Has_def Let_def)
  have c: "Attr (cells doc_nested_label 6) = [attr ''id'' ''a'', attr ''name'' ''a'']"
          "Attr (cells doc_nested_label 7) = [attr ''for'' ''a'']"
    by (simp_all add: doc_nested_label_def page_def heap_of_def node_def)
  have m: "labels (match_labels doc_nested_label [7]
             ((values_form Map.empty)\<lparr>inputs := [6], labels := [6 \<mapsto> [5]]\<rparr>)) 6 = Some [7]"
    by (simp add: match_labels_def match_label_def c attr_def Get_def values_form_def slice_of_def)
  have f: "form_step p [] doc_nested_label =
        Some (Inr (resolve_labels p [] doc_nested_label, doc_nested_label))"
    by (simp add: form_step_def resolve_labels_def w populate_def populate_input_def insert_form_def
          form_at_def set_form_def
          c attr_def Get_def match_labels_def match_label_def values_form_def Let_def)
  show ?thesis using t w f m by (simp add: resolve_labels_def form_at_def set_form_def)
qed

section \<open>The loops of lca return on a tree\<close>

lemma height_parent: "ranked h f \<Longrightarrow> height f (Parent (cells h n)) < height f (Some n)"
  by (auto simp: ranked_def height_def split: option.split)

lemma lca_inner_returns:
  assumes "ranked h f"
  shows "\<exists>b. lca_inner h ap bp = Some b"
proof (induction "height f bp" arbitrary: bp rule: less_induct)
  case less
  show ?case
  proof (cases bp)
    case None
    then have "lca_inner h ap bp = Some False"
      by (subst lca_inner.simps) simp
    then show ?thesis by blast
  next
    case (Some b)
    show ?thesis
    proof (cases "ap = b")
      case True
      then have "lca_inner h ap bp = Some True"
        using Some by (subst lca_inner.simps) simp
      then show ?thesis by blast
    next
      case False
      have "\<exists>r. lca_inner h ap (Parent (cells h b)) = Some r"
        using less [of "Parent (cells h b)"] height_parent [OF assms, of b] Some by simp
      moreover have "lca_inner h ap bp = lca_inner h ap (Parent (cells h b))"
        using Some False by (subst lca_inner.simps) simp
      ultimately show ?thesis by simp
    qed
  qed
qed

lemma lca_loop_returns:
  assumes "ranked h f"
  shows "es \<noteq> [] \<Longrightarrow> \<exists>r. lca_loop h a es ap = Some (Inr r)"
proof (induction "length es + height f ap" arbitrary: a es ap rule: less_induct)
  case less
  obtain e rest where n: "es = e # rest"
    using less.prems by (cases es) auto
  show ?case
  proof (cases ap)
    case None
    then have "lca_loop h a es ap = Some (Inr a)"
      using n by (subst lca_loop.simps) simp
    then show ?thesis by blast
  next
    case (Some q)
    obtain found where i: "lca_inner h q (Parent (cells h (Element e))) = Some found"
      using lca_inner_returns [OF assms] by blast
    have hp: "height f (Parent (cells h q)) < height f ap"
      using height_parent [OF assms, of q] Some by simp
    show ?thesis
    proof (cases found)
      case True
      show ?thesis
      proof (cases "rest = []")
        case True
        then have "lca_loop h a es ap = Some (Inr q)"
          using n Some i \<open>found\<close> by (subst lca_loop.simps) simp
        then show ?thesis by blast
      next
        case False
        have "\<exists>r. lca_loop h q rest (Parent (cells h q)) = Some (Inr r)"
          using less.hyps [of rest "Parent (cells h q)" q] False hp n by simp
        moreover have "lca_loop h a es ap = lca_loop h q rest (Parent (cells h q))"
          using n Some i \<open>found\<close> False by (subst lca_loop.simps) (cases rest, simp_all)
        ultimately show ?thesis by simp
      qed
    next
      case False
      have "\<exists>r. lca_loop h a es (Parent (cells h q)) = Some (Inr r)"
        using less.hyps [of es "Parent (cells h q)" a] less.prems hp by simp
      moreover have "lca_loop h a es ap = lca_loop h a es (Parent (cells h q))"
        using n Some i False by (subst lca_loop.simps) simp
      ultimately show ?thesis by simp
    qed
  qed
qed

lemma lca_returns: "ranked h f \<Longrightarrow> es \<noteq> [] \<Longrightarrow> \<exists>r. lca h a es = Some (Inr r)"
  unfolding lca_def by (rule lca_loop_returns)

section \<open>Placement of the error markup\<close>

lemma addErrorClass_links:
  "Parent (cells (addErrorClass cls n h) m) = Parent (cells h m) \<and>
   FirstChild (cells (addErrorClass cls n h) m) = FirstChild (cells h m) \<and>
   LastChild (cells (addErrorClass cls n h) m) = LastChild (cells h m) \<and>
   PrevSibling (cells (addErrorClass cls n h) m) = PrevSibling (cells h m) \<and>
   NextSibling (cells (addErrorClass cls n h) m) = NextSibling (cells h m)"
  by (simp add: addErrorClass_def upd_def Let_def split: option.split)

lemma fold_addErrorClass_links:
  "Parent (cells (fold (addErrorClass cls) ns h) m) = Parent (cells h m) \<and>
   FirstChild (cells (fold (addErrorClass cls) ns h) m) = FirstChild (cells h m) \<and>
   LastChild (cells (fold (addErrorClass cls) ns h) m) = LastChild (cells h m) \<and>
   PrevSibling (cells (fold (addErrorClass cls) ns h) m) = PrevSibling (cells h m) \<and>
   NextSibling (cells (fold (addErrorClass cls) ns h) m) = NextSibling (cells h m)"
  by (induction ns arbitrary: h) (simp_all add: addErrorClass_links)

lemma mark_elements_links:
  "Parent (cells (mark_elements cls es h) m) = Parent (cells h m) \<and>
   FirstChild (cells (mark_elements cls es h) m) = FirstChild (cells h m) \<and>
   LastChild (cells (mark_elements cls es h) m) = LastChild (cells h m) \<and>
   PrevSibling (cells (mark_elements cls es h) m) = PrevSibling (cells h m) \<and>
   NextSibling (cells (mark_elements cls es h) m) = NextSibling (cells h m)"
  unfolding mark_elements_def
  by (induction es arbitrary: h) (simp_all add: addErrorClass_links fold_addErrorClass_links)

lemma mark_elements_detached: "detached (mark_elements cls es h) c = detached h c"
  by (simp add: detached_def mark_elements_links)

lemma mark_elements_well_linked: "well_linked (mark_elements cls es h) n = well_linked h n"
  by (simp add: well_linked_def mark_elements_links cong: option.case_cong)

lemma InsertBefore_after:
  assumes "detached h c" and "Parent (cells h e) = Some q" and "well_linked h e" and "c \<noteq> e"
  shows "\<exists>h1. InsertBefore (Some q) c (NextSibling (cells h e)) h = Inr h1 \<and> placed_after h1 e c"
proof (cases "NextSibling (cells h e)")
  case None
  then have "LastChild (cells h q) = Some e"
    using assms(2,3) by (simp add: well_linked_def)
  then show ?thesis
    using assms None by (auto simp: InsertBefore_def placed_after_def upd_def)
next
  case (Some nx)
  then have "PrevSibling (cells h nx) = Some e"
    using assms(2,3) by (simp add: well_linked_def)
  then show ?thesis
    using assms Some by (auto simp: InsertBefore_def placed_after_def upd_def)
qed

lemma AppendChild_last:
  assumes "detached h c"
  shows "\<exists>h1. AppendChild a c h = Inr h1 \<and> placed_last_child h1 a c"
  using assms
  by (simp add: AppendChild_def placed_last_child_def upd_def Let_def split: option.split)

text \<open>
  C5 (amended). With the default inserter the error class is \<^verbatim>\<open>error\<close> and the
  template renders the messages as one \<^verbatim>\<open>ul\<close> list with an \<^verbatim>\<open>li\<close> per message.
  When the fragment parses to the detached node \<open>c\<close>: for one matched element (which
  has a parent and consistent sibling links) \<^verbatim>\<open>Insert\<close> puts \<open>c\<close> immediately after
  the element; for two or more matched elements it appends \<open>c\<close> as the last child of
  the ancestor \<open>a\<close> that \<^verbatim>\<open>lca\<close> returns.
\<close>

theorem default_insertion_placement:
  assumes "ParseFragment lib (default_template esc errors) h = Inr (c # cs, h1)"
      and "detached h1 c"
      and "Parent (cells h1 (Element e)) = Some q"
      and "well_linked h1 (Element e)"
      and "c \<noteq> Element e"
      and "lca (mark_elements ''error'' (e0 # e1 # es) h1) (Element e0) (e1 # es) = Some (Inr a)"
  shows "ErrorClass (DefaultIncidentInserter esc) = ''error'' \<and>
         Template (DefaultIncidentInserter esc) errors =
           ''<ul class=\"errors\">'' @ concat (map (\<lambda>x. ''<li>'' @ esc x @ ''</li>'') errors) @ ''</ul>'' \<and>
         (\<exists>h2. Insert lib (DefaultIncidentInserter esc) [e] errors h = Some (Inr h2) \<and>
               placed_after h2 (Element e) c) \<and>
         (\<exists>h2. Insert lib (DefaultIncidentInserter esc) (e0 # e1 # es) errors h = Some (Inr h2) \<and>
               placed_last_child h2 a c)"
proof -
  let ?i = "DefaultIncidentInserter esc"
  have t: "Template ?i errors = default_template esc errors" and k: "ErrorClass ?i = ''error''"
    by (simp_all add: DefaultIncidentInserter_def)
  let ?m1 = "mark_elements ''error'' [e] h1"
  have "\<exists>h2. InsertBefore (Some q) c (NextSibling (cells ?m1 (Element e))) ?m1 = Inr h2 \<and>
          placed_after h2 (Element e) c"
    using assms(2-5)
    by (intro InsertBefore_after) (simp_all add: mark_elements_detached mark_elements_well_linked mark_elements_links)
  then have single: "\<exists>h2. Insert lib ?i [e] errors h = Some (Inr h2) \<and> placed_after h2 (Element e) c"
    using assms(1,3) by (simp add: Insert_def t k mark_elements_links)
  let ?m2 = "mark_elements ''error'' (e0 # e1 # es) h1"
  have "\<exists>h2. AppendChild a c ?m2 = Inr h2 \<and> placed_last_child h2 a c"
    using assms(2) by (intro AppendChild_last) (simp add: mark_elements_detached)
  then have multi: "\<exists>h2. Insert lib ?i (e0 # e1 # es) errors h = Some (Inr h2) \<and> placed_last_child h2 a c"
    using assms(1,6) by (simp add: Insert_def t k)
  show ?thesis
    using single multi by (simp add: DefaultIncidentInserter_def default_template_def)
qed

lemma links_error_location:
  "Parent (cells (with_fragment doc_error_location) 5) = Some 4"
  "NextSibling (cells (with_fragment doc_error_location) 5) = Some 6"
  "PrevSibling (cells (with_fragment doc_error_location) 6) = Some 5"
  "Parent (cells (with_fragment doc_error_location) 6) = Some 4"
  "Parent (cells (with_fragment doc_error_location) 7) = Some 6"
  "Parent (cells (with_fragment doc_error_location) 8) = Some 6"
  "Parent (cells (with_fragment doc_error_location) 9) = None"
  "PrevSibling (cells (with_fragment doc_error_location) 9) = None"
  "NextSibling (cells (with_fragment doc_error_location) 9) = None"
  "LastChild (cells (with_fragment doc_error_location) 6) = Some 8"
  by (simp_all add: with_fragment_def alloc_def doc_error_location_def page_def heap_of_def node_def)

lemma fragment_error_location:
  "ParseFragment (page_lib doc_error_location) buffer doc_error_location =
     Inr ([9], with_fragment doc_error_location)"
  by (simp add: page_lib_def ul_fragment_def with_fragment_def alloc_def
        doc_error_location_def page_def heap_of_def)

lemma lca_error_location:
  "lca (mark_elements cls es (with_fragment doc_error_location)) 7 [element 8] = Some (Inr 6)"
  by (simp add: lca_def lca_loop.simps lca_inner.simps mark_elements_links links_error_location
        element_def)

theorem default_insertion_placement_witness:
  "ParseFragment (page_lib doc_error_location) (default_template (\<lambda>s. s) [''Error''])
     doc_error_location = Inr ([9], with_fragment doc_error_location) \<and>
   detached (with_fragment doc_error_location) 9 \<and>
   well_linked (with_fragment doc_error_location) 5 \<and>
   (\<exists>h2. Insert (page_lib doc_error_location) (DefaultIncidentInserter (\<lambda>s. s)) [element 5]
            [''Error''] doc_error_location = Some (Inr h2) \<and>
         placed_after h2 5 9) \<and>
   (\<exists>h2. Insert (page_lib doc_error_location) (DefaultIncidentInserter (\<lambda>s. s))
            [element 7, element 8] [''Error''] doc_error_location = Some (Inr h2) \<and>
         placed_last_child h2 6 9)"
proof -
  have d: "detached (with_fragment doc_error_location) 9"
    by (simp add: detached_def links_error_location)
  have p: "Parent (cells (with_fragment doc_error_location) (Element (element 5))) = Some 4"
    by (simp add: element_def links_error_location)
  have l: "well_linked (with_fragment doc_error_location) (Element (element 5))"
    by (simp add: well_linked_def element_def links_error_location)
  have n: "9 \<noteq> Element (element 5)"
    by (simp add: element_def)
  have a: "lca (mark_elements ''error'' (element 7 # element 8 # []) (with_fragment doc_error_location))
             (Element (element 7)) (element 8 # []) = Some (Inr 6)"
    using lca_error_location by (simp add: element_def)
  from default_insertion_placement [OF fragment_error_location d p l n a]
  show ?thesis
    using d l fragment_error_location by (simp add: element_def)
qed

text \<open>
  C5 as stated, with the placement After also for several matched elements, fails. For
  the two checkboxes 7 and 8 inside the \<^verbatim>\<open>div\<close> 6 the
  reference node is the \<^verbatim>\<open>div\<close>; the fragment 9 is not placed after it but inside
  it, behind the checkbox 8.
\<close>

theorem multiple_elements_not_placed_after:
  "\<exists>h2. Insert (page_lib doc_error_location) (DefaultIncidentInserter (\<lambda>s. s))
           [element 7, element 8] [''Error''] doc_error_location = Some (Inr h2) \<and>
        \<not> placed_after h2 6 9 \<and>
        Parent (cells h2 9) = Some 6 \<and> PrevSibling (cells h2 9) = Some 8 \<and>
        NextSibling (cells h2 6) = None"
proof -
  let ?h1 = "mark_elements ''error'' [element 7, element 8] (with_fragment doc_error_location)"
  have d: "detached ?h1 9"
    by (simp add: detached_def mark_elements_links links_error_location)
  have l: "LastChild (cells ?h1 6) = Some 8" "NextSibling (cells ?h1 6) = None"
    by (simp_all add: mark_elements_links links_error_location
          with_fragment_def alloc_def doc_error_location_def page_def heap_of_def node_def)
  have "Insert (page_lib doc_error_location) (DefaultIncidentInserter (\<lambda>s. s))
           [element 7, element 8] [''Error''] doc_error_location = Some (AppendChild 6 9 ?h1)"
    using lca_error_location [of "''error''" "[element 7, element 8]"]
    by (simp add: Insert_def fragment_error_location DefaultIncidentInserter_def Let_def element_def)
  then show ?thesis
    using d l by (simp add: AppendChild_def placed_after_def upd_def Let_def)
qed

section \<open>The common ancestor of three elements\<close>

lemma links_three_inputs:
  "Parent (cells doc_three_inputs 6) = Some 5" "Parent (cells doc_three_inputs 7) = Some 5"
  "Parent (cells doc_three_inputs 8) = Some 5" "Parent (cells doc_three_inputs 5) = Some 4"
  "Parent (cells (with_fragment doc_three_inputs) 6) = Some 5"
  "Parent (cells (with_fragment doc_three_inputs) 7) = Some 5"
  "Parent (cells (with_fragment doc_three_inputs) 8) = Some 5"
  "Parent (cells (with_fragment doc_three_inputs) 5) = Some 4"
  "detached (with_fragment doc_three_inputs) 9"
  by (simp_all add: detached_def with_fragment_def alloc_def doc_three_inputs_def page_def
        heap_of_def node_def)

text \<open>
  C4 says that for a group of matched elements the computed ancestor is an ancestor of
  every element and that none of its descendants is one too. The code departs from it
  for three elements. The inputs 6, 7 and 8 are the children of the
  \<^verbatim>\<open>div\<close> 5, whose parent is the \<^verbatim>\<open>form\<close> 4, and one incident names all three.
  \<^verbatim>\<open>lca\<close> folds the second input in and gets the \<^verbatim>\<open>div\<close>, then folds the third
  in starting from the parent of the \<^verbatim>\<open>div\<close>, and returns the \<^verbatim>\<open>form\<close>: a
  descendant of the result, the \<^verbatim>\<open>div\<close>, is an ancestor of all three. The fragment 9
  is appended to the \<^verbatim>\<open>form\<close>.
\<close>

theorem lca_of_three_siblings:
  "\<exists>p h1.
     run_new doc_three_inputs [date_form] = Some p \<and>
     matching doc_three_inputs (the (form_at p [])) (hd (Incidents date_form)) =
       [element 6, element 7, element 8] \<and>
     lca doc_three_inputs 6 [element 7, element 8] = Some (Inr 4) \<and>
     Parent (cells doc_three_inputs 6) = Some 5 \<and>
     Parent (cells doc_three_inputs 7) = Some 5 \<and>
     Parent (cells doc_three_inputs 8) = Some 5 \<and>
     Parent (cells doc_three_inputs 5) = Some 4 \<and>
     insert_form p [] doc_three_inputs = Some (Inr h1) \<and>
     placed_last_child h1 4 9"
proof -
  define p where
    "p = walk doc_three_inputs [Tree 0 tree_three_inputs] no_context
           (new_processor (page_lib doc_three_inputs) (\<lambda>s. s) New 0 [date_form])"
  let ?es = "[element 6, element 7, element 8]"
  let ?h2 = "mark_elements ''error'' ?es (with_fragment doc_three_inputs)"
  have s: "shape doc_three_inputs (FirstChild (cells doc_three_inputs 0)) tree_three_inputs"
    by (simp add: doc_three_inputs_def page_def heap_of_def node_def tree_three_inputs_def)
  have t: "run_new doc_three_inputs [date_form] = Some p"
    unfolding p_def by (rule run_new_tree(1) [OF s])
  have i: "IncidentInsertion p = Some (Insert (page_lib doc_three_inputs) (DefaultIncidentInserter (\<lambda>s. s)))"
    using run_new_tree(2) [OF s t] by simp
  have w: "form_at p [] = Some (date_form\<lparr>inputs := [6, 7, 8]\<rparr>)"
    unfolding p_def
    by (simp add: doc_three_inputs_def page_def heap_of_def node_def attr_def tree_three_inputs_def
          no_context_def new_processor_def make_forms_def date_form_def form_at_def set_form_def
          visit_def enter_def form_id_def record_node_def add_input_def Get_def Has_def Let_def)
  have m: "matching doc_three_inputs (date_form\<lparr>inputs := [6, 7, 8]\<rparr>) (hd (Incidents date_form)) = ?es"
    by (simp add: matching_def date_form_def element_def slice_of_def Get_def attr_def
          doc_three_inputs_def page_def heap_of_def node_def)
  have l: "lca doc_three_inputs 6 [element 7, element 8] = Some (Inr 4)"
    by (simp add: lca_def lca_loop.simps lca_inner.simps links_three_inputs element_def)
  have l2: "lca ?h2 6 [element 7, element 8] = Some (Inr 4)"
    by (simp add: lca_def lca_loop.simps lca_inner.simps mark_elements_links links_three_inputs
          element_def)
  have f: "ParseFragment (page_lib doc_three_inputs) buffer doc_three_inputs =
             Inr ([9], with_fragment doc_three_inputs)" for buffer
    by (simp add: page_lib_def ul_fragment_def with_fragment_def alloc_def
          doc_three_inputs_def page_def heap_of_def)
  have "detached ?h2 9"
    by (simp add: mark_elements_detached links_three_inputs)
  from AppendChild_last [OF this, of 4] obtain h1 where
    a: "AppendChild 4 9 ?h2 = Inr h1" "placed_last_child h1 4 9"
    by blast
  have "Insert (page_lib doc_three_inputs) (DefaultIncidentInserter (\<lambda>s. s)) ?es [''Invalid date.'']
          doc_three_inputs = Some (Inr h1)"
    using l2 a(1) by (simp add: Insert_def f DefaultIncidentInserter_def Let_def element_def)
  then have "insert_form p [] doc_three_inputs = Some (Inr h1)"
    using m by (simp add: insert_form_def w i call_inserter_def date_form_def)
  then show ?thesis
    using t w m l a(2) links_three_inputs by simp
qed

section \<open>Incidents that match nothing, and failing insertions\<close>

lemma traverse_one_input:
  assumes "Get ''name'' as \<noteq> []" and "Attribute_at ''form'' as = None" and "ID f = []"
  shows "\<exists>p. traverse (doc_one_input as) 0 no_context (new_processor lib esc fpf 0 [f]) = Some p \<and>
           forms p [] = Some 0 \<and>
           form_cells p 0 = f\<lparr>inputs := inputs f @ [5], labels := Map.empty, options := Map.empty\<rparr> \<and>
           plabels p = [] \<and>
           IncidentInsertion p = Some (chosen_inserter lib esc fpf)"
proof -
  define p where
    "p = walk (doc_one_input as) [Tree 0 tree_one_input] no_context (new_processor lib esc fpf 0 [f])"
  have t: "traverse (doc_one_input as) 0 no_context (new_processor lib esc fpf 0 [f]) = Some p"
    unfolding p_def by (rule traverse_tree [OF shape_one_input])
  have "forms p [] = Some 0 \<and>
        form_cells p 0 = f\<lparr>inputs := inputs f @ [5], labels := Map.empty, options := Map.empty\<rparr> \<and>
        plabels p = []"
    unfolding p_def using assms
    by (simp add: doc_one_input_def page_def heap_of_def node_def attr_def tree_one_input_def
          no_context_def new_processor_def make_forms_def set_form_def
          visit_def enter_def form_id_def record_node_def add_input_def Get_def Has_def Let_def)
  moreover have "FormPopulationFilter.truncate p =
                 FormPopulationFilter.truncate (new_processor lib esc fpf 0 [f])"
    unfolding p_def by (rule walk_filter)
  from filter_fields(1) [OF this]
  have "IncidentInsertion p = Some (chosen_inserter lib esc fpf)"
    by (simp add: new_processor_def)
  ultimately show ?thesis using t by blast
qed

lemma cells_text_input:
  "cells doc_text_input 5 =
     node ElementNode ''input'' [attr ''type'' ''text'', attr ''name'' ''foo''] (Some 4) None None None None"
  by (simp add: doc_text_input_def cells_one_input)

lemma matching_no_names:
  assumes "\<forall>input\<in>set (inputs form). \<forall>name\<in>set (Names incident).
             Get ''name'' (Attr (cells h input)) \<noteq> name"
  shows "matching h form incident = []"
  using assms by (simp add: matching_def)

lemma matching_Incidents: "matching h (form\<lparr>Incidents := x\<rparr>) incident = matching h form incident"
  by (simp add: matching_def cong: if_cong)

lemma insert_incidents_Incidents:
  "insert_incidents ins (form\<lparr>Incidents := x\<rparr>) incs h = insert_incidents ins form incs h"
  by (induction incs arbitrary: h)
     (simp_all add: matching_Incidents Let_def split: option.split sum.split)

lemma insert_incidents_append:
  "insert_incidents ins form (xs @ ys) h =
     (case insert_incidents ins form xs h of
        None \<Rightarrow> None
      | Some (Inl e) \<Rightarrow> Some (Inl e)
      | Some (Inr h1) \<Rightarrow> insert_incidents ins form ys h1)"
  by (induction xs arbitrary: h) (simp_all add: Let_def split: option.split sum.split)

text \<open>
  C8. Let the incidents of the form that \<^verbatim>\<open>p.forms[formId]\<close> points to be
  \<open>pre @ incident # post\<close>, let the insertions for \<open>pre\<close> succeed and end in the
  heap \<open>h1\<close>, and let no input of the form carry a name of \<open>incident\<close> there. Then
  the round for \<open>incident\<close> calls no inserter, returns without an error and leaves the
  heap as it is, and \<^verbatim>\<open>processor.insert\<close> gives the same result (the same tree, or
  the same error) as for the form without that incident.
\<close>

theorem unmatched_incident_changes_nothing:
  assumes "forms p formId = Some a"
      and "form_cells p a = form"
      and "Incidents form = pre @ incident # post"
      and "insert_incidents (call_inserter (IncidentInsertion p)) form pre h = Some (Inr h1)"
      and "\<forall>input\<in>set (inputs form). \<forall>name\<in>set (Names incident).
             Get ''name'' (Attr (cells h1 input)) \<noteq> name"
  shows "insert_incidents (call_inserter (IncidentInsertion p)) form [incident] h1 = Some (Inr h1) \<and>
         insert_form p formId h =
           insert_form (set_form a (form\<lparr>Incidents := pre @ post\<rparr>) p) formId h"
proof -
  let ?ins = "call_inserter (IncidentInsertion p)"
  have m: "matching h1 form incident = []"
    using assms(5) by (rule matching_no_names)
  have one: "insert_incidents ?ins form [incident] h1 = Some (Inr h1)"
    using m by simp
  have "insert_incidents ?ins form (pre @ incident # post) h = insert_incidents ?ins form (pre @ post) h"
    using assms(4) m by (simp add: insert_incidents_append)
  then have "insert_form p formId h =
      insert_form (set_form a (form\<lparr>Incidents := pre @ post\<rparr>) p) formId h"
    using assms(1,2,3)
    by (simp add: insert_form_def form_at_def set_form_def insert_incidents_Incidents)
  then show ?thesis using one by simp
qed

theorem unmatched_incident_changes_nothing_witness:
  "\<exists>p. run_new doc_text_input [required_form ''bar''] = Some p \<and>
     forms p [] = Some 0 \<and>
     form_cells p 0 = (required_form ''bar'')\<lparr>inputs := [5]\<rparr> \<and>
     Get ''name'' (Attr (cells doc_text_input 5)) = ''foo'' \<and>
     insert_incidents (call_inserter (IncidentInsertion p)) ((required_form ''bar'')\<lparr>inputs := [5]\<rparr>)
       (Incidents (required_form ''bar'')) doc_text_input = Some (Inr doc_text_input) \<and>
     insert_form p [] doc_text_input =
       insert_form (set_form 0 ((required_form ''bar'')\<lparr>inputs := [5], Incidents := []\<rparr>) p)
         [] doc_text_input"
proof -
  let ?f = "(required_form ''bar'')\<lparr>inputs := [5]\<rparr>"
  let ?i = "\<lparr>Names = [''bar''], Errors = [''This field is required.'']\<rparr>"
  obtain p where
    t: "run_new doc_text_input [required_form ''bar''] = Some p"
    and w: "forms p [] = Some 0"
    and c: "form_cells p 0 = ?f"
    using traverse_one_input [of "[attr ''type'' ''text'', attr ''name'' ''foo'']" "required_form ''bar''"
            "page_lib doc_text_input" "\<lambda>s. s" New]
    by (auto simp: run_new_def doc_text_input_def attr_def Get_def required_form_def)
  have g: "Get ''name'' (Attr (cells doc_text_input 5)) = ''foo''"
    by (simp add: cells_text_input node_def attr_def Get_def)
  have i: "Incidents ?f = [] @ ?i # []"
    by (simp add: required_form_def)
  have b: "insert_incidents (call_inserter (IncidentInsertion p)) ?f [] doc_text_input =
             Some (Inr doc_text_input)"
    by simp
  have n: "\<forall>input\<in>set (inputs ?f). \<forall>name\<in>set (Names ?i).
             Get ''name'' (Attr (cells doc_text_input input)) \<noteq> name"
    by (simp add: g)
  from unmatched_incident_changes_nothing [OF w c i b n]
  show ?thesis using t w c g by (simp add: required_form_def)
qed

lemma process_forms_append:
  "process_forms p (xs @ ys) h =
     (case process_forms p xs h of
        None \<Rightarrow> None
      | Some (Inl e) \<Rightarrow> Some (Inl e)
      | Some (Inr (p1, h1)) \<Rightarrow> process_forms p1 ys h1)"
  by (induction xs arbitrary: p h) (simp_all split: option.split sum.split prod.split)

text \<open>
  C7. If the document parses, the traversal returns, the keys before \<open>k\<close> in the order
  of the run are processed without an error, and for the form that \<open>k\<close> points to
  (the round works under its \<^verbatim>\<open>ID\<close>) the population succeeds and
  \<^verbatim>\<open>processor.insert\<close> returns the error \<open>e\<close>, then \<^verbatim>\<open>Execute\<close> returns \<open>e\<close>
  and the writer holds what it held before: \<^verbatim>\<open>Render\<close> is not reached. In the
  witness the error markup fails to parse.
\<close>

theorem Execute_insertion_error_writes_nothing:
  assumes "Parse lib r = Inr (doc, h)"
      and "traverse h doc no_context (new_processor lib esc fpf doc fs) = Some p1"
      and "process_forms p1 done h = Some (Inr (p2, h2))"
      and "form_at p2 k = Some form"
      and "populate (resolve_labels p2 (ID form) h2) (ID form) h2 = Inr h3"
      and "insert_form (resolve_labels p2 (ID form) h2) (ID form) h3 = Some (Inl e)"
  shows "Execute lib esc fpf fs (done @ k # rest) w r = Some \<lparr>err = Some e, written = w\<rparr>"
proof -
  have "forms p2 (ID form) \<noteq> None"
  proof
    assume "forms p2 (ID form) = None"
    then have "populate (resolve_labels p2 (ID form) h2) (ID form) h2 = Inl NilDereference"
      by (simp add: populate_def resolve_labels_def form_at_def)
    then show False using assms(5) by simp
  qed
  then have "form_step p2 (ID form) h2 = Some (Inl e)"
    using assms(5,6) by (auto simp: form_step_def Let_def)
  then have "process_forms p2 (k # rest) h2 = Some (Inl e)"
    using assms(4) by simp
  then have "process_forms p1 (done @ k # rest) h = Some (Inl e)"
    using assms(3) by (simp add: process_forms_append)
  then show ?thesis
    using assms(1,2) by (simp add: Execute_def)
qed

theorem Execute_insertion_error_writes_nothing_witness:
  "\<exists>p h3.
     Parse (broken_lib doc_text_input) ''<form>'' = Inr (0, doc_text_input) \<and>
     traverse doc_text_input 0 no_context
       (new_processor (broken_lib doc_text_input) (\<lambda>s. s) New 0 [required_form ''foo'']) = Some p \<and>
     form_at p [] = Some ((required_form ''foo'')\<lparr>inputs := [5]\<rparr>) \<and>
     populate (resolve_labels p [] doc_text_input) [] doc_text_input = Inr h3 \<and>
     insert_form (resolve_labels p [] doc_text_input) [] h3 =
       Some (Inl (Failure ''unexpected EOF'')) \<and>
     Execute (broken_lib doc_text_input) (\<lambda>s. s) New [required_form ''foo''] [[]] ''sent before: '' ''<form>'' =
       Some \<lparr>err = Some (Failure ''unexpected EOF''), written = ''sent before: ''\<rparr>"
proof -
  let ?lib = "broken_lib doc_text_input"
  let ?f = "(required_form ''foo'')\<lparr>inputs := [5]\<rparr>"
  let ?h3 = "upd 5 (\<lambda>x. x\<lparr>Attr := [attr ''type'' ''text'', attr ''name'' ''foo'', attr ''value'' ''bar'']\<rparr>)
               doc_text_input"
  obtain p where
    t: "traverse doc_text_input 0 no_context (new_processor ?lib (\<lambda>s. s) New 0 [required_form ''foo'']) = Some p"
    and w: "forms p [] = Some 0"
    and c: "form_cells p 0 = ?f"
    and l: "plabels p = []"
    and i: "IncidentInsertion p = Some (chosen_inserter ?lib (\<lambda>s. s) New)"
    using traverse_one_input [of "[attr ''type'' ''text'', attr ''name'' ''foo'']" "required_form ''foo''"
            ?lib "\<lambda>s. s" New]
    by (auto simp: doc_text_input_def attr_def Get_def required_form_def)
  define q where "q = resolve_labels p [] doc_text_input"
  have fa: "form_at p [] = Some ?f"
    by (simp add: form_at_def w c)
  have pa: "Parse ?lib ''<form>'' = Inr (0, doc_text_input)"
    by (simp add: broken_lib_def page_lib_def)
  have pf: "form_at q [] = Some ?f" "IncidentInsertion q = Some (chosen_inserter ?lib (\<lambda>s. s) New)"
    unfolding q_def
    by (simp_all add: resolve_labels_def match_labels_def form_at_def set_form_def w c l i)
  have "populate q [] doc_text_input = Inr ?h3"
    by (simp add: pf cells_text_input populate_def populate_input_def required_form_def node_def attr_def
          Get_def Let_def Remove_def upd_def first_param_def)
  then have po: "populate (resolve_labels p [] doc_text_input) [] doc_text_input = Inr ?h3"
    unfolding q_def .
  have "insert_form q [] ?h3 = Some (Inl (Failure ''unexpected EOF''))"
    by (simp add: insert_form_def pf call_inserter_def chosen_inserter_def New_def required_form_def
          matching_def upd_def attr_def Get_def Insert_def broken_lib_def Let_def)
  then have ins: "insert_form (resolve_labels p [] doc_text_input) [] ?h3 =
                    Some (Inl (Failure ''unexpected EOF''))"
    unfolding q_def .
  have d: "process_forms p [] doc_text_input = Some (Inr (p, doc_text_input))"
    by simp
  have k: "ID ?f = []"
    by (simp add: required_form_def)
  from Execute_insertion_error_writes_nothing [OF pa t d fa, of ?h3 "Failure ''unexpected EOF''" "[]"
         "''sent before: ''"]
  show ?thesis using pa t po ins fa k by simp
qed

end
